theory Spec2Isabelle
  imports Complex_Main
begin

section \<open>Strings and numbers of the source language\<close>

text \<open>
  The program is TypeScript; the definitions follow \<open>txt2ppt.ts\<close>, function by
  function and under the names of the source. The file \<open>part_000\<close> holds a second copy
  of the program that differs in places; it is modelled after the first, and its
  definitions carry the mark \<open>000\<close> where the name is taken already. A string is a sequence of UTF-16 code units,
  modelled as a list of natural numbers; \<open>str\<close> turns a literal into such a list.
  Numbers are IEEE doubles in the source and exact rationals here: rounding is not
  modelled.
\<close>

type_synonym jsstring = "nat list"

abbreviation (input) str :: "string \<Rightarrow> jsstring" where
  "str s \<equiv> map of_char s"

text \<open>The characters matched by the regular-expression class \<open>\s\<close> and removed by
  \<open>trim\<close>, \<open>trimStart\<close> and \<open>trimEnd\<close>: WhiteSpace and LineTerminator.\<close>

definition isSpace :: "nat \<Rightarrow> bool" where
  "isSpace c \<longleftrightarrow>
     c = 9 \<or> c = 10 \<or> c = 11 \<or> c = 12 \<or> c = 13 \<or> c = 32 \<or> c = 160 \<or> c = 5760 \<or>
     (8192 \<le> c \<and> c \<le> 8202) \<or> c = 8232 \<or> c = 8233 \<or> c = 8239 \<or> c = 8287 \<or>
     c = 12288 \<or> c = 65279"

text \<open>The characters the regular-expression dot does not match.\<close>

definition isLineTerminator :: "nat \<Rightarrow> bool" where
  "isLineTerminator c \<longleftrightarrow> c = 10 \<or> c = 13 \<or> c = 8232 \<or> c = 8233"

definition isDigit :: "nat \<Rightarrow> bool" where
  "isDigit c \<longleftrightarrow> 48 \<le> c \<and> c \<le> 57"

text \<open>Case folding of the \<open>i\<close> flag, for patterns made of ASCII characters.\<close>

definition lowerAscii :: "nat \<Rightarrow> nat" where
  "lowerAscii c = (if 65 \<le> c \<and> c \<le> 90 then c + 32 else c)"

definition trimStart :: "jsstring \<Rightarrow> jsstring" where
  "trimStart s = dropWhile isSpace s"

definition trimEnd :: "jsstring \<Rightarrow> jsstring" where
  "trimEnd s = rev (dropWhile isSpace (rev s))"

definition trim :: "jsstring \<Rightarrow> jsstring" where
  "trim s = trimEnd (trimStart s)"

text \<open>\<open>s.slice(a, b)\<close> for \<open>0 \<le> a\<close> and \<open>0 \<le> b \<le> length s\<close>.\<close>

definition slice :: "nat \<Rightarrow> nat \<Rightarrow> 'a list \<Rightarrow> 'a list" where
  "slice a b s = take (b - a) (drop a s)"

text \<open>\<open>s.split(sep)\<close> for a one-character separator: never the empty list.\<close>

fun splitOn :: "nat \<Rightarrow> jsstring \<Rightarrow> jsstring list" where
  "splitOn sep [] = [[]]"
| "splitOn sep (c # cs) =
     (if c = sep then [] # splitOn sep cs
      else (case splitOn sep cs of
              [] \<Rightarrow> [[c]]
            | l # ls \<Rightarrow> (c # l) # ls))"

text \<open>\<open>xs.join(sep)\<close>.\<close>

fun joinWith :: "jsstring \<Rightarrow> jsstring list \<Rightarrow> jsstring" where
  "joinWith sep [] = []"
| "joinWith sep [x] = x"
| "joinWith sep (x # y # ys) = x @ sep @ joinWith sep (y # ys)"

text \<open>\<open>rawText.replace(/\r\n?/g, "\n")\<close>.\<close>

fun normalizeNewlines :: "jsstring \<Rightarrow> jsstring" where
  "normalizeNewlines [] = []"
| "normalizeNewlines [c] = (if c = 13 then [10] else [c])"
| "normalizeNewlines (c # d # cs) =
     (if c = 13 \<and> d = 10 then 10 # normalizeNewlines cs
      else if c = 13 then 10 # normalizeNewlines (d # cs)
      else c # normalizeNewlines (d # cs))"

text \<open>The decimal numeral of a number, as a template literal prints it.\<close>

fun decimal :: "nat \<Rightarrow> jsstring" where
  "decimal n = (if n < 10 then [48 + n] else decimal (n div 10) @ [48 + n mod 10])"

declare decimal.simps [simp del]

section \<open>Data model\<close>

datatype bulletKind = BulletMark | NumberMark

record bulletItem =
  itemText :: jsstring
  bulletType :: bulletKind
  indentLevel :: nat

datatype sizing = Cover | Contain

datatype block =
    Paragraph jsstring
  | Bullets "bulletItem list"
  | ImageBlock jsstring jsstring "sizing option"
  | Code jsstring "jsstring option"
  | Table "jsstring list list"

record slideSpec =
  title :: jsstring
  subtitle :: "jsstring option"
  blocks :: "block list"
  slideNotes :: "jsstring option"
  background :: "jsstring option"

record parseState =
  slides :: "slideSpec list"
  current :: "slideSpec option"
  codeBlock :: "(jsstring option \<times> jsstring list) option"

definition MAX_INDENT_LEVEL :: nat where
  "MAX_INDENT_LEVEL = 3"

section \<open>The line patterns\<close>

text \<open>\<open>CODE_FENCE_REGEX = /^```/\<close>.\<close>

definition testCodeFence :: "jsstring \<Rightarrow> bool" where
  "testCodeFence s \<longleftrightarrow> take 3 s = [96, 96, 96]"

text \<open>\<open>HEADING_REGEX = /^#\s+/\<close>: the test, and \<open>replace(HEADING_REGEX, "")\<close>.\<close>

definition testHeading :: "jsstring \<Rightarrow> bool" where
  "testHeading s \<longleftrightarrow> (case s of c # d # _ \<Rightarrow> c = 35 \<and> isSpace d | _ \<Rightarrow> False)"

definition stripHeading :: "jsstring \<Rightarrow> jsstring" where
  "stripHeading s = (if testHeading s then dropWhile isSpace (drop 1 s) else s)"

text \<open>\<open>SUBTITLE_REGEX = /^##\s+/\<close>.\<close>

definition testSubtitle :: "jsstring \<Rightarrow> bool" where
  "testSubtitle s \<longleftrightarrow>
     (case s of c # d # e # _ \<Rightarrow> c = 35 \<and> d = 35 \<and> isSpace e | _ \<Rightarrow> False)"

definition stripSubtitle :: "jsstring \<Rightarrow> jsstring" where
  "stripSubtitle s = (if testSubtitle s then dropWhile isSpace (drop 2 s) else s)"

text \<open>\<open>NOTE_REGEX = /^>note:/i\<close> and \<open>BACKGROUND_REGEX = /^>bg:/i\<close>.\<close>

definition testNote :: "jsstring \<Rightarrow> bool" where
  "testNote s \<longleftrightarrow> map lowerAscii (take 6 s) = str ''>note:''"

definition stripNote :: "jsstring \<Rightarrow> jsstring" where
  "stripNote s = (if testNote s then drop 6 s else s)"

definition testBackground :: "jsstring \<Rightarrow> bool" where
  "testBackground s \<longleftrightarrow> map lowerAscii (take 4 s) = str ''>bg:''"

definition stripBackground :: "jsstring \<Rightarrow> jsstring" where
  "stripBackground s = (if testBackground s then drop 4 s else s)"

text \<open>
  \<open>IMAGE_REGEX = /^\s*!\[(.*?)]\((.+)\)\s*$/\<close>. \<open>imagePath\<close> matches
  \<open>(.+)\)\s*$\<close> against the text after \<open>](\<close>: the closing parenthesis is the last
  character that is not white space, and the path before it is not empty.
  \<open>imageAlt\<close> is the lazy group: it tries the rest of the pattern at each position
  before it takes one more character.
\<close>

definition imagePath :: "jsstring \<Rightarrow> jsstring option" where
  "imagePath r =
     (let t = trimEnd r in
      if t \<noteq> [] \<and> last t = 41 \<and> butlast t \<noteq> [] \<and> \<not> list_ex isLineTerminator (butlast t)
      then Some (butlast t) else None)"

fun imageAlt :: "jsstring \<Rightarrow> (jsstring \<times> jsstring) option" where
  "imageAlt [] = None"
| "imageAlt (c # cs) =
     (case (if c = 93 \<and> take 1 cs = [40] then imagePath (drop 1 cs) else None) of
        Some p \<Rightarrow> Some ([], p)
      | None \<Rightarrow>
          if isLineTerminator c then None
          else (case imageAlt cs of None \<Rightarrow> None | Some (a, p) \<Rightarrow> Some (c # a, p)))"

definition imageMatch :: "jsstring \<Rightarrow> (jsstring \<times> jsstring) option" where
  "imageMatch raw =
     (let s = dropWhile isSpace raw in
      if take 2 s = [33, 91] then imageAlt (drop 2 s) else None)"

text \<open>\<open>pathRaw.split(/#(cover|contain)$/i)\<close> with the sizing read from the token.\<close>

definition splitSizing :: "jsstring \<Rightarrow> jsstring \<times> sizing option" where
  "splitSizing p =
     (let n = length p; l = map lowerAscii p in
      if 6 \<le> n \<and> drop (n - 6) l = str ''#cover'' then (take (n - 6) p, Some Cover)
      else if 8 \<le> n \<and> drop (n - 8) l = str ''#contain'' then (take (n - 8) p, Some Contain)
      else (p, None))"

text \<open>\<open>isTableLine\<close>, with the pattern \<open>/^\|[\s:-]+\|$/\<close> written out.\<close>

definition separatorRow :: "jsstring \<Rightarrow> bool" where
  "separatorRow t \<longleftrightarrow>
     3 \<le> length t \<and> hd t = 124 \<and> last t = 124 \<and>
     list_all (\<lambda>c. isSpace c \<or> c = 58 \<or> c = 45) (butlast (tl t))"

definition isTableLine :: "jsstring \<Rightarrow> bool" where
  "isTableLine line =
     (let trimmed = trim line in
      if \<not> (trimmed \<noteq> [] \<and> hd trimmed = 124) \<or> \<not> (trimmed \<noteq> [] \<and> last trimmed = 124)
      then False
      else if separatorRow trimmed then False
      else 124 \<in> set trimmed)"

text \<open>
  \<open>BULLET_REGEX = /^(\s*)([-*]|\d+\.)\s+(.*)$/\<close>: the three groups. The marker is
  not white space, so the first group is the whole leading white space; the last group
  starts after the white space that follows the marker.
\<close>

definition bulletMarker :: "jsstring \<Rightarrow> (jsstring \<times> jsstring) option" where
  "bulletMarker s =
     (case s of
        [] \<Rightarrow> None
      | c # cs \<Rightarrow>
          if c = 45 \<or> c = 42 then Some ([c], cs)
          else (let ds = takeWhile isDigit s; r = dropWhile isDigit s in
                if ds \<noteq> [] \<and> take 1 r = [46] then Some (ds @ [46], drop 1 r) else None))"

definition bulletMatch :: "jsstring \<Rightarrow> (jsstring \<times> jsstring \<times> jsstring) option" where
  "bulletMatch raw =
     (case bulletMarker (dropWhile isSpace raw) of
        None \<Rightarrow> None
      | Some (marker, r) \<Rightarrow>
          if r \<noteq> [] \<and> isSpace (hd r) \<and> \<not> list_ex isLineTerminator (dropWhile isSpace r)
          then Some (takeWhile isSpace raw, marker, dropWhile isSpace r)
          else None)"

text \<open>\<open>/^\d+\.$/.test(marker)\<close>.\<close>

definition testNumberMarker :: "jsstring \<Rightarrow> bool" where
  "testNumberMarker m \<longleftrightarrow>
     m \<noteq> [] \<and> last m = 46 \<and> butlast m \<noteq> [] \<and> list_all isDigit (butlast m)"

text \<open>\<open>match[1].replace(/\t/g, "  ")\<close>.\<close>

definition expandTabs :: "jsstring \<Rightarrow> jsstring" where
  "expandTabs s = concat (map (\<lambda>c. if c = 9 then [32, 32] else [c]) s)"

section \<open>The parser\<close>

definition slideName :: "nat \<Rightarrow> jsstring" where
  "slideName n = str ''Slide '' @ decimal n"

definition finalizeCurrentSlide :: "parseState \<Rightarrow> parseState" where
  "finalizeCurrentSlide st =
     (case current st of
        Some c \<Rightarrow> st\<lparr>slides := slides st @ [c], current := None\<rparr>
      | None \<Rightarrow> st)"

definition startNewSlide :: "parseState \<Rightarrow> jsstring option \<Rightarrow> parseState" where
  "startNewSlide st rawTitle =
     (let st1 = finalizeCurrentSlide st;
          t = map_option trim rawTitle
      in st1\<lparr>current := Some \<lparr>title = (case t of
                                          Some x \<Rightarrow> if 0 < length x then x
                                                     else slideName (length (slides st1) + 1)
                                        | None \<Rightarrow> slideName (length (slides st1) + 1)),
                                subtitle = None, blocks = [], slideNotes = None,
                                background = None\<rparr>,
              codeBlock := None\<rparr>)"

definition ensureSlide :: "parseState \<Rightarrow> jsstring option \<Rightarrow> parseState" where
  "ensureSlide st fallbackTitle =
     (case current st of
        None \<Rightarrow> startNewSlide st (Some (case fallbackTitle of
                                           Some f \<Rightarrow> f
                                         | None \<Rightarrow> slideName (length (slides st) + 1)))
      | Some _ \<Rightarrow> st)"

text \<open>The source changes the slide object that \<open>ensureSlide\<close> returns; here the
  change is applied to the current slide of the state.\<close>

definition onCurrent :: "(slideSpec \<Rightarrow> slideSpec) \<Rightarrow> parseState \<Rightarrow> parseState" where
  "onCurrent f st = st\<lparr>current := map_option f (current st)\<rparr>"

definition appendBlock :: "parseState \<Rightarrow> block \<Rightarrow> parseState" where
  "appendBlock st b = onCurrent (\<lambda>s. s\<lparr>blocks := blocks s @ [b]\<rparr>) (ensureSlide st None)"

definition appendNote :: "parseState \<Rightarrow> jsstring \<Rightarrow> parseState" where
  "appendNote st line =
     (let noteText = trim (stripNote line) in
      onCurrent (\<lambda>s. s\<lparr>slideNotes := Some (case slideNotes s of
                                         Some n \<Rightarrow> if n \<noteq> [] then n @ [10] @ noteText
                                                    else noteText
                                       | None \<Rightarrow> noteText)\<rparr>)
        (ensureSlide st None))"

definition updateBackground :: "parseState \<Rightarrow> jsstring \<Rightarrow> parseState" where
  "updateBackground st line =
     (let st1 = ensureSlide st None;
          backgroundPath = trim (stripBackground line)
      in if backgroundPath \<noteq> [] then onCurrent (\<lambda>s. s\<lparr>background := Some backgroundPath\<rparr>) st1
         else st1)"

definition appendCodeBlock :: "parseState \<Rightarrow> parseState" where
  "appendCodeBlock st =
     (case codeBlock st of
        None \<Rightarrow> st
      | Some cb \<Rightarrow> (appendBlock st (Code (joinWith [10] (snd cb)) (fst cb)))\<lparr>codeBlock := None\<rparr>)"

text \<open>
  The collectors read \<open>lines\<close> from \<open>startIndex\<close> on. Here they take the lines from
  \<open>startIndex\<close> on and return, with their result, the lines after \<open>nextIndex\<close>:
  those the main loop reads next.
\<close>

fun collectTable :: "jsstring list \<Rightarrow> jsstring list list \<times> jsstring list" where
  "collectTable [] = ([], [])"
| "collectTable (l # ls) =
     (let candidate = trim l in
      if \<not> isTableLine candidate then ([], l # ls)
      else (let inner = slice 1 (length candidate - 1) candidate in
            case collectTable ls of
              (rows, rest) \<Rightarrow> (map trim (splitOn 124 inner) # rows, rest)))"

definition bulletOf :: "jsstring \<times> jsstring \<times> jsstring \<Rightarrow> bulletItem" where
  "bulletOf m =
     (case m of (ws, marker, rest) \<Rightarrow>
        (let indentSpaces = length (expandTabs ws);
             level = min (indentSpaces div 2) MAX_INDENT_LEVEL;
             textContent = trim rest
         in \<lparr>itemText = textContent,
             bulletType = (if testNumberMarker marker then NumberMark else BulletMark),
             indentLevel = level\<rparr>))"

fun collectBullets :: "jsstring list \<Rightarrow> bulletItem list \<times> jsstring list" where
  "collectBullets [] = ([], [])"
| "collectBullets (raw # ls) =
     (case bulletMatch raw of
        None \<Rightarrow> ([], raw # ls)
      | Some m \<Rightarrow> (case collectBullets ls of (items, rest) \<Rightarrow> (bulletOf m # items, rest)))"

definition isBlockBoundary :: "jsstring \<Rightarrow> bool" where
  "isBlockBoundary line =
     (let trimmed = trim line in
      if trimmed = [] then True
      else testCodeFence trimmed \<or> testSubtitle trimmed \<or> testHeading trimmed \<or>
           testNote trimmed \<or> testBackground trimmed \<or> imageMatch line \<noteq> None \<or>
           isTableLine trimmed \<or> bulletMatch line \<noteq> None)"

fun collectParagraph :: "jsstring list \<Rightarrow> jsstring list \<times> jsstring list" where
  "collectParagraph [] = ([], [])"
| "collectParagraph (raw # ls) =
     (if trim raw = [] then ([], ls)
      else (case ls of
              [] \<Rightarrow> ([trim raw], [])
            | lookahead # _ \<Rightarrow>
                if trim lookahead = [] then ([trim raw], ls)
                else if isBlockBoundary lookahead then ([trim raw], ls)
                else (case collectParagraph ls of
                        (buffer, rest) \<Rightarrow> (trim raw # buffer, rest))))"

declare collectParagraph.simps(2) [simp del]

text \<open>One turn of the main loop on \<open>rawLine\<close>, with the lines after it: the new
  state and the lines still to read.\<close>

definition parseLine ::
  "parseState \<Rightarrow> jsstring \<Rightarrow> jsstring list \<Rightarrow> parseState \<times> jsstring list" where
  "parseLine st rawLine rest =
     (let trimmedRight = trimEnd rawLine;
          trimmed = trim trimmedRight
      in case codeBlock st of
           Some cb \<Rightarrow>
             if testCodeFence trimmedRight then (appendCodeBlock st, rest)
             else (st\<lparr>codeBlock := Some (fst cb, snd cb @ [rawLine])\<rparr>, rest)
         | None \<Rightarrow>
             if trimmed = [] then (st, rest)
             else if testCodeFence trimmedRight then
               (let l = trim (drop 3 trimmedRight) in
                (st\<lparr>codeBlock := Some (if l \<noteq> [] then Some l else None, [])\<rparr>, rest))
             else if testSubtitle trimmed then
               (onCurrent (\<lambda>s. s\<lparr>subtitle := Some (trim (stripSubtitle trimmed))\<rparr>)
                  (ensureSlide st None), rest)
             else if testHeading trimmed then
               (startNewSlide st (Some (trim (stripHeading trimmed))), rest)
             else if testNote trimmed then (appendNote st trimmedRight, rest)
             else if testBackground trimmed then (updateBackground st trimmedRight, rest)
             else (case imageMatch rawLine of
                     Some (altRaw, pathRaw) \<Rightarrow>
                       (case splitSizing pathRaw of (imgPath, sz) \<Rightarrow>
                          (appendBlock st (ImageBlock (trim altRaw) (trim imgPath) sz), rest))
                   | None \<Rightarrow>
                       if isTableLine trimmedRight then
                         (case collectTable (rawLine # rest) of (rows, rest') \<Rightarrow>
                            (appendBlock st (Table rows), rest'))
                       else if bulletMatch rawLine \<noteq> None then
                         (case collectBullets (rawLine # rest) of (items, rest') \<Rightarrow>
                            (appendBlock st (Bullets items), rest'))
                       else
                         (case collectParagraph (rawLine # rest) of (buffer, rest') \<Rightarrow>
                            (appendBlock st (Paragraph (joinWith [10] buffer)), rest'))))"

section \<open>Rendering: geometry and results\<close>

definition SAFE_MARGIN_X :: rat where "SAFE_MARGIN_X = 6 / 10"
definition SAFE_MARGIN_BOTTOM :: rat where "SAFE_MARGIN_BOTTOM = 7 / 10"
definition TITLE_Y :: rat where "TITLE_Y = 4 / 10"
definition SUBTITLE_Y :: rat where "SUBTITLE_Y = 1"
definition BODY_TOP :: rat where "BODY_TOP = 16 / 10"
definition LINE_HEIGHT :: rat where "LINE_HEIGHT = 35 / 100"
definition BULLET_LINE_HEIGHT :: rat where "BULLET_LINE_HEIGHT = 38 / 100"
definition CODE_LINE_HEIGHT :: rat where "CODE_LINE_HEIGHT = 32 / 100"
definition MIN_BLOCK_HEIGHT :: rat where "MIN_BLOCK_HEIGHT = 6 / 10"
definition BLOCK_GAP :: rat where "BLOCK_GAP = 2 / 10"
definition MAX_IMAGE_HEIGHT :: rat where "MAX_IMAGE_HEIGHT = 35 / 10"
definition TABLE_ROW_HEIGHT :: rat where "TABLE_ROW_HEIGHT = 45 / 100"
definition TABLE_BASE_HEIGHT :: rat where "TABLE_BASE_HEIGHT = 6 / 10"
definition EMU_PER_INCH :: rat where "EMU_PER_INCH = 914400"

datatype renderResult =
    Rendered rat
  | Split rat block
  | Defer

record renderDimensions =
  dimX :: rat
  dimY :: rat
  width :: rat
  availableHeight :: rat
  safeBottom :: rat

text \<open>
  The calls the renderer makes on a slide of the presentation library, with the text or
  data drawn and the box \<open>x\<close>, \<open>y\<close>, \<open>w\<close>, \<open>h\<close>. Fonts, sizes and colours are
  constants of the source and are left out.
\<close>

datatype drawing =
    AddText jsstring rat rat rat rat
  | AddBullets "bulletItem list" rat rat rat rat
  | AddImage jsstring jsstring sizing rat rat rat rat
  | AddTable "jsstring list list" rat rat rat
  | AddNotes jsstring

text \<open>Each renderer returns the calls it made and its result.\<close>

definition renderParagraph :: "jsstring \<Rightarrow> renderDimensions \<Rightarrow> drawing list \<times> renderResult" where
  "renderParagraph t dims =
     (let lines = splitOn 10 t;
          neededHeight = max (of_nat (length lines) * LINE_HEIGHT) MIN_BLOCK_HEIGHT
      in if neededHeight \<le> availableHeight dims then
           ([AddText t (dimX dims) (dimY dims) (width dims) (max neededHeight MIN_BLOCK_HEIGHT)],
            Rendered (dimY dims + neededHeight))
         else if availableHeight dims < MIN_BLOCK_HEIGHT then ([], Defer)
         else
           (let maxLines = nat (max (\<lfloor>availableHeight dims / LINE_HEIGHT\<rfloor> - 1) 1);
                head = joinWith [10] (take maxLines lines);
                tail = joinWith [10] (drop maxLines lines)
            in ([AddText head (dimX dims) (dimY dims) (width dims)
                   (max (availableHeight dims) MIN_BLOCK_HEIGHT)],
                Split (dimY dims + availableHeight dims) (Paragraph (trimStart tail)))))"

definition renderBullets ::
  "bulletItem list \<Rightarrow> renderDimensions \<Rightarrow> drawing list \<times> renderResult" where
  "renderBullets items dims =
     (if length items = 0 then ([], Rendered (dimY dims))
      else
        (let neededHeight = max (of_nat (length items) * BULLET_LINE_HEIGHT) MIN_BLOCK_HEIGHT
         in if neededHeight > availableHeight dims \<and> availableHeight dims < MIN_BLOCK_HEIGHT
            then ([], Defer)
            else
              (let maxItems =
                     (if neededHeight \<le> availableHeight dims then length items
                      else nat (max (\<lfloor>availableHeight dims / BULLET_LINE_HEIGHT\<rfloor> - 1) 1));
                   call = AddBullets (take maxItems items) (dimX dims) (dimY dims) (width dims)
                            (max (min neededHeight (availableHeight dims)) MIN_BLOCK_HEIGHT)
               in if maxItems = length items then
                    ([call], Rendered (dimY dims + min neededHeight (availableHeight dims)))
                  else
                    ([call], Split (dimY dims + availableHeight dims)
                               (Bullets (drop maxItems items))))))"

definition renderImage ::
  "jsstring \<Rightarrow> jsstring \<Rightarrow> sizing option \<Rightarrow> renderDimensions \<Rightarrow> drawing list \<times> renderResult" where
  "renderImage alt path sz dims =
     (let available = max (availableHeight dims) 0
      in if available < MIN_BLOCK_HEIGHT then ([], Defer)
         else
           (let height = max (min MAX_IMAGE_HEIGHT available) MIN_BLOCK_HEIGHT;
                sizingType = (if sz = Some Cover then Cover else Contain)
            in ([AddImage path alt sizingType (dimX dims) (dimY dims) (width dims) height],
                Rendered (dimY dims + height))))"

definition renderCode ::
  "jsstring \<Rightarrow> jsstring option \<Rightarrow> renderDimensions \<Rightarrow> drawing list \<times> renderResult" where
  "renderCode t language dims =
     (let lines = splitOn 10 t;
          neededHeight = max (of_nat (length lines) * CODE_LINE_HEIGHT + 2 / 10) MIN_BLOCK_HEIGHT
      in if neededHeight > availableHeight dims \<and> availableHeight dims < MIN_BLOCK_HEIGHT
         then ([], Defer)
         else
           (let fits = (neededHeight \<le> availableHeight dims);
                lineLimit =
                  (if fits then length lines
                   else nat (max (\<lfloor>(availableHeight dims - 2 / 10) / CODE_LINE_HEIGHT\<rfloor> - 1) 1));
                head = joinWith [10] (take lineLimit lines);
                call = AddText head (dimX dims) (dimY dims) (width dims)
                         (max (min neededHeight (availableHeight dims)) MIN_BLOCK_HEIGHT)
            in if fits then
                 ([call], Rendered (dimY dims + min neededHeight (availableHeight dims)))
               else
                 ([call], Split (dimY dims + availableHeight dims)
                            (Code (trimStart (joinWith [10] (drop lineLimit lines))) language))))"

definition renderTable ::
  "jsstring list list \<Rightarrow> renderDimensions \<Rightarrow> drawing list \<times> renderResult" where
  "renderTable rows dims =
     (let neededHeight =
            max (TABLE_BASE_HEIGHT + of_nat (length rows) * TABLE_ROW_HEIGHT) MIN_BLOCK_HEIGHT
      in if neededHeight > availableHeight dims \<and> availableHeight dims < MIN_BLOCK_HEIGHT
         then ([], Defer)
         else
           (let targetHeight = max (min neededHeight (availableHeight dims)) MIN_BLOCK_HEIGHT
            in ([AddTable rows (dimX dims) (dimY dims) (width dims)],
                Rendered (dimY dims + targetHeight))))"

fun renderBlock :: "block \<Rightarrow> renderDimensions \<Rightarrow> drawing list \<times> renderResult" where
  "renderBlock (Paragraph t) dims = renderParagraph t dims"
| "renderBlock (Bullets items) dims = renderBullets items dims"
| "renderBlock (ImageBlock alt path sz) dims = renderImage alt path sz dims"
| "renderBlock (Code t language) dims = renderCode t language dims"
| "renderBlock (Table rows) dims = renderTable rows dims"

text \<open>The size of a block: its lines or items. Images and tables are never split.\<close>

fun blockSize :: "block \<Rightarrow> nat" where
  "blockSize (Paragraph t) = length (splitOn 10 t)"
| "blockSize (Bullets items) = length items"
| "blockSize (Code t language) = length (splitOn 10 t)"
| "blockSize (ImageBlock alt path sz) = 0"
| "blockSize (Table rows) = 0"

section \<open>The main loop of the parser\<close>

text \<open>The main loop over the lines. It ends because every turn reads at least one line;
  the lemmas up to the termination proof show it.\<close>

function parseLines :: "parseState \<Rightarrow> jsstring list \<Rightarrow> parseState" where
  "parseLines st [] = st"
| "parseLines st (rawLine # rest) =
     (case parseLine st rawLine rest of (st', rest') \<Rightarrow> parseLines st' rest')"
  by pat_completeness auto

section \<open>Properties of the string operations\<close>

lemma trimEnd_Cons:
  "trimEnd (x # xs) = (if list_all isSpace (x # xs) then [] else x # trimEnd xs)"
  unfolding trimEnd_def
  by (auto simp: dropWhile_append list_all_iff)

lemma trimEnd_Nil [simp]: "trimEnd [] = []"
  by (simp add: trimEnd_def)

lemma trimEnd_all_space: "list_all isSpace s \<Longrightarrow> trimEnd s = []"
  by (cases s) (simp_all add: trimEnd_Cons)

lemma trimEnd_eq_Nil: "trimEnd s = [] \<longleftrightarrow> list_all isSpace s"
  by (cases s) (simp_all add: trimEnd_Cons)

lemma trimStart_all_space: "list_all isSpace s \<Longrightarrow> trimStart s = []"
  by (simp add: trimStart_def list_all_iff)

lemma trimStart_trimEnd: "trimStart (trimEnd s) = trimEnd (trimStart s)"
proof (induction s)
  case Nil
  show ?case by (simp add: trimStart_def)
next
  case (Cons a s)
  show ?case
  proof (cases "list_all isSpace (a # s)")
    case True
    then show ?thesis
      by (simp only: trimEnd_all_space trimStart_all_space) (simp add: trimStart_def)
  next
    case False
    then show ?thesis
      using Cons by (cases "isSpace a") (auto simp: trimEnd_Cons trimStart_def)
  qed
qed

lemma trimEnd_idem: "trimEnd (trimEnd s) = trimEnd s"
  unfolding trimEnd_def by simp

lemma trim_trimEnd: "trim (trimEnd s) = trim s"
  by (simp add: trim_def trimStart_trimEnd trimEnd_idem)

lemma trim_idem: "trim (trim s) = trim s"
  by (metis trim_trimEnd trim_def trimStart_def dropWhile_idem)

lemma trim_eq_Nil: "trim s = [] \<longleftrightarrow> list_all isSpace s"
proof
  assume "trim s = []"
  then have "list_all isSpace (dropWhile isSpace s)"
    by (simp add: trim_def trimStart_def trimEnd_eq_Nil)
  then have "dropWhile isSpace s = []"
    using hd_dropWhile [of isSpace s] by (cases "dropWhile isSpace s") auto
  then show "list_all isSpace s"
    by (simp add: list_all_iff)
next
  assume "list_all isSpace s"
  then show "trim s = []"
    by (simp add: trim_def trimStart_all_space)
qed

lemma trim_hd: "trim s \<noteq> [] \<Longrightarrow> \<not> isSpace (hd (trim s))"
  by (metis hd_dropWhile trimStart_def trimStart_trimEnd trim_def)

lemma trim_last: "trim s \<noteq> [] \<Longrightarrow> \<not> isSpace (last (trim s))"
  by (metis dropWhile_eq_self_iff dropWhile_idem hd_rev rev.simps(1)
    rev_rev_ident trimEnd_def trim_def)

lemma trim_noop: "s \<noteq> [] \<Longrightarrow> \<not> isSpace (hd s) \<Longrightarrow> \<not> isSpace (last s) \<Longrightarrow> trim s = s"
  by (metis trim_def trimStart_def trimEnd_def dropWhile_eq_self_iff hd_rev rev_rev_ident)

section \<open>The main loop ends\<close>

lemma isTableLine_trim: "isTableLine (trim l) = isTableLine l"
  by (simp add: isTableLine_def trim_idem)

lemma isTableLine_trimEnd: "isTableLine (trimEnd l) = isTableLine l"
  by (simp add: isTableLine_def trim_trimEnd)

lemma collectTable_rest: "length (snd (collectTable ls)) \<le> length ls"
  by (induction ls) (auto simp: Let_def split: prod.splits)

lemma collectTable_consumes:
  "isTableLine l \<Longrightarrow> length (snd (collectTable (l # ls))) \<le> length ls"
  using collectTable_rest [of ls] by (auto simp: Let_def isTableLine_trim split: prod.splits)

lemma collectBullets_rest: "length (snd (collectBullets ls)) \<le> length ls"
  by (induction ls) (auto split: option.splits prod.splits)

lemma collectBullets_consumes:
  "bulletMatch l \<noteq> None \<Longrightarrow> length (snd (collectBullets (l # ls))) \<le> length ls"
  using collectBullets_rest [of ls] by (auto split: prod.splits)


lemma collectParagraph_step:
  "collectParagraph (raw # ls) =
     (if trim raw = [] then ([], ls)
      else if ls = [] then ([trim raw], [])
      else if trim (hd ls) = [] \<or> isBlockBoundary (hd ls) then ([trim raw], ls)
      else (trim raw # fst (collectParagraph ls), snd (collectParagraph ls)))"
  apply (subst collectParagraph.simps(2))
  apply (cases ls; simp split: prod.splits del: collectParagraph.simps)
  done

lemma collectParagraph_rest: "length (snd (collectParagraph ls)) \<le> length ls - 1"
proof (induction ls rule: collectParagraph.induct)
  case 1
  show ?case by simp
next
  case (2 raw ls)
  show ?case
  proof (cases "trim raw = [] \<or> ls = [] \<or> trim (hd ls) = [] \<or> isBlockBoundary (hd ls)")
    case True
    then show ?thesis
      by (auto simp add: collectParagraph_step simp del: collectParagraph.simps)
  next
    case False
    then obtain x xs where ls: "ls = x # xs"
      by (cases ls) auto
    with False have "length (snd (collectParagraph ls)) \<le> length ls - 1"
      using "2.IH" [of x xs] by simp
    with False show ?thesis
      by (simp add: collectParagraph_step del: collectParagraph.simps)
  qed
qed

lemma collectParagraph_consumes:
  "length (snd (collectParagraph (l # ls))) \<le> length ls"
  using collectParagraph_rest [of "l # ls"] by simp

lemma parseLine_rest:
  "parseLine st l ls = (st', rest) \<Longrightarrow> length rest \<le> length ls"
  using collectTable_consumes [of l ls] collectBullets_consumes [of l ls]
    collectParagraph_consumes [of l ls]
  by (auto simp: parseLine_def Let_def isTableLine_trimEnd
      simp del: collectTable.simps collectBullets.simps collectParagraph.simps
      split: option.splits if_splits prod.splits)

termination parseLines
  apply (relation "measure (\<lambda>(st, ls). length ls)")
  subgoal by simp
  subgoal premises prems for st rawLine rest st' rest'
    using parseLine_rest [of st rawLine rest st' rest'] prems [symmetric] by simp
  done

definition parseSlides :: "jsstring \<Rightarrow> slideSpec list" where
  "parseSlides rawText =
     (let normalized = normalizeNewlines rawText;
          lines = splitOn 10 normalized;
          st = parseLines \<lparr>slides = [], current = None, codeBlock = None\<rparr> lines
      in slides (finalizeCurrentSlide (appendCodeBlock st)))"

definition allSlides :: "parseState \<Rightarrow> slideSpec list" where
  "allSlides st = slides st @ (case current st of None \<Rightarrow> [] | Some c \<Rightarrow> [c])"

definition allBlocks :: "parseState \<Rightarrow> block list" where
  "allBlocks st = concat (map blocks (allSlides st))"

lemma parseLine_cases:
  assumes "parseLine st l ls = (st', rest)"
  obtains
    (codeLine) cb where "codeBlock st = Some cb" "\<not> testCodeFence (trimEnd l)"
      "st' = st\<lparr>codeBlock := Some (fst cb, snd cb @ [l])\<rparr>" "rest = ls"
  | (closeFence) cb where "codeBlock st = Some cb" "st' = appendCodeBlock st" "rest = ls"
  | (blank) "codeBlock st = None" "trim l = []" "st' = st" "rest = ls"
  | (openFence) lang where "codeBlock st = None" "trim l \<noteq> []"
      "st' = st\<lparr>codeBlock := Some (lang, [])\<rparr>" "rest = ls"
  | (subtitle) t where "codeBlock st = None" "trim l \<noteq> []"
      "st' = onCurrent (\<lambda>s. s\<lparr>subtitle := Some t\<rparr>) (ensureSlide st None)" "rest = ls"
  | (heading) "codeBlock st = None" "trim l \<noteq> []" "testHeading (trim l)"
      "st' = startNewSlide st (Some (trim (stripHeading (trim l))))" "rest = ls"
  | (noteLine) "codeBlock st = None" "trim l \<noteq> []" "st' = appendNote st (trimEnd l)" "rest = ls"
  | (bgLine) "codeBlock st = None" "trim l \<noteq> []" "st' = updateBackground st (trimEnd l)"
      "rest = ls"
  | (image) a p z where "codeBlock st = None" "trim l \<noteq> []"
      "st' = appendBlock st (ImageBlock a p z)" "rest = ls"
  | (table) "codeBlock st = None" "trim l \<noteq> []" "isTableLine l"
      "st' = appendBlock st (Table (fst (collectTable (l # ls))))"
      "rest = snd (collectTable (l # ls))"
  | (bullets) "codeBlock st = None" "trim l \<noteq> []" "bulletMatch l \<noteq> None"
      "st' = appendBlock st (Bullets (fst (collectBullets (l # ls))))"
      "rest = snd (collectBullets (l # ls))"
  | (para) "codeBlock st = None" "trim l \<noteq> []"
      "st' = appendBlock st (Paragraph (joinWith [10] (fst (collectParagraph (l # ls)))))"
      "rest = snd (collectParagraph (l # ls))"
proof (cases "codeBlock st")
  case (Some cb)
  have eq: "parseLine st l ls =
      (if testCodeFence (trimEnd l) then (appendCodeBlock st, ls)
       else (st\<lparr>codeBlock := Some (fst cb, snd cb @ [l])\<rparr>, ls))"
    unfolding parseLine_def Let_def by (simp only: Some option.case)
  show ?thesis
  proof (cases "testCodeFence (trimEnd l)")
    case True
    then show ?thesis using assms Some closeFence [of cb] by (simp add: eq)
  next
    case False
    then show ?thesis using assms Some codeLine [of cb] by (simp add: eq)
  qed
next
  case None
  note cb = None
  show ?thesis
  proof (cases "trim l = []")
    case True
    have "parseLine st l ls = (st, ls)"
      unfolding parseLine_def Let_def by (simp only: cb option.case trim_trimEnd True if_True simp_thms)
    then show ?thesis
      using assms cb True blank by simp
  next
    case False
    note nb = False
    have eq: "parseLine st l ls =
       (if testCodeFence (trimEnd l) then
               (st\<lparr>codeBlock := Some (if trim (drop 3 (trimEnd l)) \<noteq> []
                    then Some (trim (drop 3 (trimEnd l))) else None, [])\<rparr>, ls)
             else if testSubtitle (trim l) then
               (onCurrent (\<lambda>s. s\<lparr>subtitle := Some (trim (stripSubtitle (trim l)))\<rparr>)
                  (ensureSlide st None), ls)
             else if testHeading (trim l) then
               (startNewSlide st (Some (trim (stripHeading (trim l)))), ls)
             else if testNote (trim l) then (appendNote st (trimEnd l), ls)
             else if testBackground (trim l) then (updateBackground st (trimEnd l), ls)
             else (case imageMatch l of
                     Some (altRaw, pathRaw) \<Rightarrow>
                       (case splitSizing pathRaw of (imgPath, sz) \<Rightarrow>
                          (appendBlock st (ImageBlock (trim altRaw) (trim imgPath) sz), ls))
                   | None \<Rightarrow>
                       if isTableLine l then
                         (case collectTable (l # ls) of (rows, rest') \<Rightarrow>
                            (appendBlock st (Table rows), rest'))
                       else if bulletMatch l \<noteq> None then
                         (case collectBullets (l # ls) of (items, rest') \<Rightarrow>
                            (appendBlock st (Bullets items), rest'))
                       else
                         (case collectParagraph (l # ls) of (buffer, rest') \<Rightarrow>
                            (appendBlock st (Paragraph (joinWith [10] buffer)), rest'))))"
      unfolding parseLine_def Let_def
      by (simp only: cb option.case trim_trimEnd isTableLine_trimEnd nb if_False)
    consider (a) "testCodeFence (trimEnd l)"
      | (b) "\<not> testCodeFence (trimEnd l)" "testSubtitle (trim l)"
      | (c) "\<not> testCodeFence (trimEnd l)" "\<not> testSubtitle (trim l)" "testHeading (trim l)"
      | (d) "\<not> testCodeFence (trimEnd l)" "\<not> testSubtitle (trim l)" "\<not> testHeading (trim l)"
          "testNote (trim l)"
      | (e) "\<not> testCodeFence (trimEnd l)" "\<not> testSubtitle (trim l)" "\<not> testHeading (trim l)"
          "\<not> testNote (trim l)" "testBackground (trim l)"
      | (f) "\<not> testCodeFence (trimEnd l)" "\<not> testSubtitle (trim l)" "\<not> testHeading (trim l)"
          "\<not> testNote (trim l)" "\<not> testBackground (trim l)"
      by blast
    then show ?thesis
    proof cases
      case a
      then show ?thesis using assms cb nb openFence by (auto simp: eq)
    next
      case b
      then show ?thesis using assms cb nb subtitle by (auto simp: eq)
    next
      case c
      then show ?thesis using assms cb nb heading by (auto simp: eq)
    next
      case d
      then show ?thesis using assms cb nb noteLine by (auto simp: eq)
    next
      case e
      then show ?thesis using assms cb nb bgLine by (auto simp: eq)
    next
      case f
      then have eq2: "parseLine st l ls = (case imageMatch l of
                     Some (altRaw, pathRaw) \<Rightarrow>
                       (case splitSizing pathRaw of (imgPath, sz) \<Rightarrow>
                          (appendBlock st (ImageBlock (trim altRaw) (trim imgPath) sz), ls))
                   | None \<Rightarrow>
                       if isTableLine l then
                         (case collectTable (l # ls) of (rows, rest') \<Rightarrow>
                            (appendBlock st (Table rows), rest'))
                       else if bulletMatch l \<noteq> None then
                         (case collectBullets (l # ls) of (items, rest') \<Rightarrow>
                            (appendBlock st (Bullets items), rest'))
                       else
                         (case collectParagraph (l # ls) of (buffer, rest') \<Rightarrow>
                            (appendBlock st (Paragraph (joinWith [10] buffer)), rest')))"
        by (simp only: eq if_False)
      show ?thesis
      proof (cases "imageMatch l")
        case (Some m)
        then show ?thesis
          using assms cb nb image unfolding eq2
          by (auto split: prod.splits)
      next
        case None
        then show ?thesis
          using assms cb nb table bullets para unfolding eq2
          by (auto simp del: collectTable.simps collectBullets.simps collectParagraph.simps
              split: if_splits prod.splits)
      qed
    qed
  qed
qed


section \<open>What the state operations do to the slides\<close>

lemma decimal_last: "decimal n \<noteq> [] \<and> last (decimal n) = 48 + n mod 10"
  by (subst (1 2) decimal.simps) simp

lemma digit_not_space: "48 \<le> c \<Longrightarrow> c \<le> 57 \<Longrightarrow> \<not> isSpace c"
  by (auto simp: isSpace_def)

lemma slideName_trim: "trim (slideName n) = slideName n"
proof (rule trim_noop)
  show "slideName n \<noteq> []" by (simp add: slideName_def)
  show "\<not> isSpace (hd (slideName n))" by (simp add: slideName_def isSpace_def)
  have "last (slideName n) = 48 + n mod 10"
    using decimal_last [of n] by (simp add: slideName_def)
  moreover have "n mod 10 < 10" by simp
  ultimately show "\<not> isSpace (last (slideName n))"
    by (simp add: digit_not_space)
qed

lemma slideName_nonempty: "slideName n \<noteq> []"
  by (simp add: slideName_def)

lemma allSlides_finalize: "allSlides (finalizeCurrentSlide st) = allSlides st"
  by (simp add: allSlides_def finalizeCurrentSlide_def split: option.splits)

lemma slides_finalize: "slides (finalizeCurrentSlide st) = allSlides st"
  by (simp add: allSlides_def finalizeCurrentSlide_def split: option.splits)

lemma current_finalize: "current (finalizeCurrentSlide st) = None"
  by (simp add: finalizeCurrentSlide_def split: option.splits)

lemma allSlides_startNewSlide:
  "allSlides (startNewSlide st (Some t)) =
     allSlides st @ [\<lparr>title = (if trim t \<noteq> [] then trim t else slideName (length (allSlides st) + 1)),
                      subtitle = None, blocks = [], slideNotes = None, background = None\<rparr>]"
  by (simp add: startNewSlide_def Let_def allSlides_def [of "_\<lparr>current := _, codeBlock := _\<rparr>"]
      slides_finalize)

lemma current_startNewSlide: "current (startNewSlide st t) \<noteq> None"
  by (simp add: startNewSlide_def Let_def)

lemma current_ensureSlide: "current (ensureSlide st None) \<noteq> None"
  using current_startNewSlide [of st] by (cases "current st") (auto simp: ensureSlide_def)

lemma allSlides_ensureSlide:
  "allSlides (ensureSlide st None) =
     (if current st = None
      then allSlides st @ [\<lparr>title = slideName (length (allSlides st) + 1),
                      subtitle = None, blocks = [], slideNotes = None, background = None\<rparr>]
      else allSlides st)"
proof (cases "current st")
  case None
  then have "length (slides st) = length (allSlides st)"
    by (simp add: allSlides_def)
  with None show ?thesis
    by (simp add: ensureSlide_def allSlides_startNewSlide slideName_trim slideName_nonempty)
next
  case (Some c)
  then show ?thesis by (simp add: ensureSlide_def)
qed

lemma allSlides_onCurrent:
  "current st \<noteq> None \<Longrightarrow>
   allSlides (onCurrent f st) = butlast (allSlides st) @ [f (last (allSlides st))]"
  by (auto simp: onCurrent_def allSlides_def)

lemma current_onCurrent: "current (onCurrent f st) = None \<longleftrightarrow> current st = None"
  by (simp add: onCurrent_def)

lemma allSlides_nonempty: "current st \<noteq> None \<Longrightarrow> allSlides st \<noteq> []"
  by (auto simp: allSlides_def)

lemma allSlides_codeBlock_update [simp]: "allSlides (st\<lparr>codeBlock := x\<rparr>) = allSlides st"
  by (simp add: allSlides_def)

text \<open>Every operation that works on the current slide has this shape.\<close>

lemma allSlides_onCurrent_ensure:
  "\<exists>xs x. allSlides (ensureSlide st None) = xs @ [x] \<and>
      (\<forall>f. allSlides (onCurrent f (ensureSlide st None)) = xs @ [f x])"
proof -
  let ?e = "ensureSlide st None"
  have "allSlides ?e \<noteq> []"
    by (rule allSlides_nonempty) (rule current_ensureSlide)
  then obtain xs x where e: "allSlides ?e = xs @ [x]"
    by (cases "allSlides ?e" rule: rev_cases) auto
  have "allSlides (onCurrent f ?e) = xs @ [f x]" for f
    by (simp add: allSlides_onCurrent current_ensureSlide e)
  with e show ?thesis
    by blast
qed

lemma titles_onCurrent_ensure:
  assumes "\<And>s. title (f s) = title s"
  shows "map title (allSlides (onCurrent f (ensureSlide st None))) =
           map title (allSlides st) @
             (if current st = None then [slideName (length (allSlides st) + 1)] else [])"
proof -
  obtain xs x where e: "allSlides (ensureSlide st None) = xs @ [x]"
    and f: "allSlides (onCurrent f (ensureSlide st None)) = xs @ [f x]"
    using allSlides_onCurrent_ensure [of st] by blast
  have "map title (allSlides (onCurrent f (ensureSlide st None))) =
          map title (allSlides (ensureSlide st None))"
    by (simp add: e f assms)
  then show ?thesis
    by (simp add: allSlides_ensureSlide)
qed

lemma blocks_onCurrent_ensure:
  assumes "\<And>s. blocks (f s) = blocks s @ bs"
  shows "allBlocks (onCurrent f (ensureSlide st None)) = allBlocks st @ bs"
proof -
  obtain xs x where e: "allSlides (ensureSlide st None) = xs @ [x]"
    and f: "allSlides (onCurrent f (ensureSlide st None)) = xs @ [f x]"
    using allSlides_onCurrent_ensure [of st] by blast
  have "allBlocks (onCurrent f (ensureSlide st None)) =
          concat (map blocks (allSlides (ensureSlide st None))) @ bs"
    by (simp add: allBlocks_def e f assms)
  also have "concat (map blocks (allSlides (ensureSlide st None))) = allBlocks st"
    by (simp add: allSlides_ensureSlide allBlocks_def)
  finally show ?thesis .
qed

section \<open>What one turn of the main loop does\<close>

lemma titles_ensureSlide:
  "map title (allSlides (ensureSlide st None)) =
     map title (allSlides st) @
       (if current st = None then [slideName (length (allSlides st) + 1)] else [])"
  by (simp add: allSlides_ensureSlide)

lemma titles_appendBlock:
  "map title (allSlides (appendBlock st b)) =
     map title (allSlides st) @
       (if current st = None then [slideName (length (allSlides st) + 1)] else [])"
  unfolding appendBlock_def by (rule titles_onCurrent_ensure) simp

lemma titles_appendCodeBlock:
  "map title (allSlides (appendCodeBlock st)) =
     map title (allSlides st) @
       (if current st = None \<and> codeBlock st \<noteq> None
        then [slideName (length (allSlides st) + 1)] else [])"
  by (cases "codeBlock st") (simp_all add: appendCodeBlock_def titles_appendBlock)

lemma titles_appendNote:
  "map title (allSlides (appendNote st x)) =
     map title (allSlides st) @
       (if current st = None then [slideName (length (allSlides st) + 1)] else [])"
  unfolding appendNote_def Let_def by (rule titles_onCurrent_ensure) simp

lemma titles_updateBackground:
  "map title (allSlides (updateBackground st x)) =
     map title (allSlides st) @
       (if current st = None then [slideName (length (allSlides st) + 1)] else [])"
proof (cases "trim (stripBackground x) = []")
  case True
  then show ?thesis
    by (simp add: updateBackground_def Let_def titles_ensureSlide)
next
  case False
  have "map title (allSlides (onCurrent (\<lambda>s. s\<lparr>background := Some (trim (stripBackground x))\<rparr>)
          (ensureSlide st None))) =
        map title (allSlides st) @
         (if current st = None then [slideName (length (allSlides st) + 1)] else [])"
    by (rule titles_onCurrent_ensure) simp
  with False show ?thesis
    by (simp add: updateBackground_def Let_def)
qed

lemma titles_startNewSlide:
  "map title (allSlides (startNewSlide st (Some t))) =
     map title (allSlides st) @
       [if trim t \<noteq> [] then trim t else slideName (length (allSlides st) + 1)]"
  by (simp add: allSlides_startNewSlide)

text \<open>The titles already there stay; at most one title is added, and it is the text
  of the heading on this line or the name made from the slide's number.\<close>

lemma parseLine_titles:
  assumes "parseLine st l ls = (st', rest)"
  shows "map title (allSlides st') = map title (allSlides st)
       \<or> map title (allSlides st') =
           map title (allSlides st) @ [slideName (length (allSlides st) + 1)]
       \<or> (testHeading (trim l) \<and> trim (stripHeading (trim l)) \<noteq> [] \<and>
          map title (allSlides st') =
            map title (allSlides st) @ [trim (stripHeading (trim l))])"
  using assms
proof (cases rule: parseLine_cases)
  case (heading)
  then show ?thesis
    by (simp add: titles_startNewSlide trim_idem)
next
  case (subtitle t)
  have "map title (allSlides (onCurrent (\<lambda>s. s\<lparr>subtitle := Some t\<rparr>) (ensureSlide st None))) =
        map title (allSlides st) @
         (if current st = None then [slideName (length (allSlides st) + 1)] else [])"
    by (rule titles_onCurrent_ensure) simp
  with subtitle show ?thesis by simp
qed (simp_all add: titles_appendBlock titles_appendCodeBlock titles_appendNote
      titles_updateBackground)

section \<open>The titles of the slides\<close>

text \<open>The texts of the heading lines among \<open>ls\<close>.\<close>

definition headingTitles :: "jsstring list \<Rightarrow> jsstring set" where
  "headingTitles ls = (\<lambda>l. trim (stripHeading (trim l))) ` {l \<in> set ls. testHeading (trim l)}"

text \<open>Titles \<open>ts\<close> of the slides number \<open>k + 1\<close>, \<open>k + 2\<close>, ...: none is empty, and
  each is a heading text from \<open>H\<close> or the name made from the slide's number.\<close>

definition goodTitles :: "jsstring set \<Rightarrow> nat \<Rightarrow> jsstring list \<Rightarrow> bool" where
  "goodTitles H k ts \<longleftrightarrow>
     (\<forall>i < length ts. ts ! i \<noteq> [] \<and> (ts ! i = slideName (k + i + 1) \<or> ts ! i \<in> H))"

lemma goodTitles_Nil [simp]: "goodTitles H k []"
  by (simp add: goodTitles_def)

lemma goodTitles_single:
  "goodTitles H k [t] \<longleftrightarrow> t \<noteq> [] \<and> (t = slideName (k + 1) \<or> t \<in> H)"
  by (simp add: goodTitles_def)

lemma goodTitles_append:
  "goodTitles H k (a @ b) \<longleftrightarrow> goodTitles H k a \<and> goodTitles H (k + length a) b"
proof
  assume g: "goodTitles H k (a @ b)"
  have "goodTitles H k a"
    unfolding goodTitles_def
  proof (intro allI impI)
    fix i assume "i < length a"
    then show "a ! i \<noteq> [] \<and> (a ! i = slideName (k + i + 1) \<or> a ! i \<in> H)"
      using g [unfolded goodTitles_def, rule_format, of i] by (simp add: nth_append)
  qed
  moreover have "goodTitles H (k + length a) b"
    unfolding goodTitles_def
  proof (intro allI impI)
    fix i assume "i < length b"
    then show "b ! i \<noteq> [] \<and> (b ! i = slideName (k + length a + i + 1) \<or> b ! i \<in> H)"
      using g [unfolded goodTitles_def, rule_format, of "length a + i"]
      by (simp add: nth_append add.assoc)
  qed
  ultimately show "goodTitles H k a \<and> goodTitles H (k + length a) b" ..
next
  assume g: "goodTitles H k a \<and> goodTitles H (k + length a) b"
  show "goodTitles H k (a @ b)"
    unfolding goodTitles_def
  proof (intro allI impI)
    fix i assume i: "i < length (a @ b)"
    show "(a @ b) ! i \<noteq> [] \<and> ((a @ b) ! i = slideName (k + i + 1) \<or> (a @ b) ! i \<in> H)"
    proof (cases "i < length a")
      case True
      then show ?thesis
        using g by (simp add: goodTitles_def nth_append)
    next
      case False
      then have "i - length a < length b" using i by simp
      then show ?thesis
        using g False by (auto simp: goodTitles_def nth_append)
    qed
  qed
qed

lemma goodTitles_mono: "goodTitles H k ts \<Longrightarrow> H \<subseteq> H' \<Longrightarrow> goodTitles H' k ts"
  by (auto simp: goodTitles_def)

lemma headingTitles_mono: "set ls \<subseteq> set ls' \<Longrightarrow> headingTitles ls \<subseteq> headingTitles ls'"
  by (auto simp: headingTitles_def)

lemma collectTable_suffix: "set (snd (collectTable ls)) \<subseteq> set ls"
  by (induction ls) (auto simp: Let_def split: prod.splits)

lemma collectBullets_suffix: "set (snd (collectBullets ls)) \<subseteq> set ls"
  by (induction ls) (auto split: option.splits prod.splits)

lemma collectParagraph_suffix: "set (snd (collectParagraph ls)) \<subseteq> set ls"
proof (induction ls rule: collectParagraph.induct)
  case 1
  show ?case by simp
next
  case (2 raw ls)
  show ?case
  proof (cases "trim raw = [] \<or> ls = [] \<or> trim (hd ls) = [] \<or> isBlockBoundary (hd ls)")
    case True
    then show ?thesis
      by (auto simp add: collectParagraph_step simp del: collectParagraph.simps)
  next
    case False
    then obtain x xs where ls: "ls = x # xs"
      by (cases ls) auto
    with False have "set (snd (collectParagraph ls)) \<subseteq> set ls"
      using "2.IH" [of x xs] by simp
    with False show ?thesis
      by (auto simp add: collectParagraph_step simp del: collectParagraph.simps)
  qed
qed

lemma parseLine_suffix:
  assumes "parseLine st l ls = (st', rest)"
  shows "set rest \<subseteq> set (l # ls)"
  using assms collectTable_suffix [of "l # ls"] collectBullets_suffix [of "l # ls"]
    collectParagraph_suffix [of "l # ls"]
  by (cases rule: parseLine_cases) auto

lemma parseLine_goodTitles:
  assumes "parseLine st l ls = (st', rest)"
  shows "\<exists>ts. map title (allSlides st') = map title (allSlides st) @ ts \<and>
           goodTitles (headingTitles (l # ls)) (length (allSlides st)) ts"
proof -
  have h: "testHeading (trim l) \<Longrightarrow> trim (stripHeading (trim l)) \<in> headingTitles (l # ls)"
    by (simp add: headingTitles_def)
  from parseLine_titles [OF assms] show ?thesis
  proof (elim disjE conjE)
    assume "map title (allSlides st') = map title (allSlides st)"
    then show ?thesis by (intro exI [of _ "[]"]) simp
  next
    assume "map title (allSlides st') =
      map title (allSlides st) @ [slideName (length (allSlides st) + 1)]"
    then show ?thesis
      by (intro exI [of _ "[slideName (length (allSlides st) + 1)]"])
        (simp add: goodTitles_single slideName_nonempty)
  next
    assume "testHeading (trim l)" "trim (stripHeading (trim l)) \<noteq> []"
      "map title (allSlides st') = map title (allSlides st) @ [trim (stripHeading (trim l))]"
    then show ?thesis
      using h by (intro exI [of _ "[trim (stripHeading (trim l))]"]) (simp add: goodTitles_single)
  qed
qed

lemma parseLines_goodTitles:
  "\<exists>ts. map title (allSlides (parseLines st ls)) = map title (allSlides st) @ ts \<and>
        goodTitles (headingTitles ls) (length (allSlides st)) ts"
proof (induction st ls rule: parseLines.induct)
  case (1 st)
  show ?case by simp
next
  case (2 st l ls)
  obtain st' rest where step: "parseLine st l ls = (st', rest)"
    by (cases "parseLine st l ls")
  obtain t0 where t0: "map title (allSlides st') = map title (allSlides st) @ t0"
    "goodTitles (headingTitles (l # ls)) (length (allSlides st)) t0"
    using parseLine_goodTitles [OF step] by blast
  obtain ts where ts: "map title (allSlides (parseLines st' rest)) = map title (allSlides st') @ ts"
    "goodTitles (headingTitles rest) (length (allSlides st')) ts"
    using "2.IH" [OF step [symmetric]] by blast
  have len: "length (allSlides st') = length (allSlides st) + length t0"
    using arg_cong [OF t0(1), of length] by simp
  have "goodTitles (headingTitles (l # ls)) (length (allSlides st) + length t0) ts"
    using ts(2) parseLine_suffix [OF step] headingTitles_mono goodTitles_mono
    unfolding len by blast
  with t0 have "goodTitles (headingTitles (l # ls)) (length (allSlides st)) (t0 @ ts)"
    by (simp add: goodTitles_append)
  moreover have "map title (allSlides (parseLines st (l # ls))) =
      map title (allSlides st) @ t0 @ ts"
    using step ts(1) t0(1) by simp
  ultimately show ?case by blast
qed

text \<open>The result of the parser after the loop, from any state.\<close>

lemma finish_titles:
  "\<exists>ts. map title (slides (finalizeCurrentSlide (appendCodeBlock (parseLines st ls)))) =
          map title (allSlides st) @ ts \<and>
        goodTitles (headingTitles ls) (length (allSlides st)) ts"
proof -
  obtain ts where ts: "map title (allSlides (parseLines st ls)) = map title (allSlides st) @ ts"
    "goodTitles (headingTitles ls) (length (allSlides st)) ts"
    using parseLines_goodTitles by blast
  let ?f = "parseLines st ls"
  have len: "length (allSlides ?f) = length (allSlides st) + length ts"
    using arg_cong [OF ts(1), of length] by simp
  let ?x = "if current ?f = None \<and> codeBlock ?f \<noteq> None
        then [slideName (length (allSlides ?f) + 1)] else []"
  have "goodTitles (headingTitles ls) (length (allSlides st) + length ts) ?x"
    by (simp add: goodTitles_single slideName_nonempty len)
  with ts(2) have "goodTitles (headingTitles ls) (length (allSlides st)) (ts @ ?x)"
    by (simp add: goodTitles_append)
  moreover have "map title (slides (finalizeCurrentSlide (appendCodeBlock ?f))) =
      map title (allSlides st) @ ts @ ?x"
    by (simp only: slides_finalize titles_appendCodeBlock ts(1)) simp
  ultimately show ?thesis by blast
qed

lemma parseSlides_titles:
  "goodTitles (headingTitles (splitOn 10 (normalizeNewlines txt))) 0 (map title (parseSlides txt))"
  using finish_titles [of "\<lparr>slides = [], current = None, codeBlock = None\<rparr>"
      "splitOn 10 (normalizeNewlines txt)"]
  by (auto simp: parseSlides_def Let_def allSlides_def)

section \<open>The blocks of the slides\<close>

text \<open>The blocks one turn of the main loop can add when it reads line \<open>l\<close>, followed
  by the lines \<open>ls\<close>.\<close>

definition producedBy :: "jsstring \<Rightarrow> jsstring list \<Rightarrow> block \<Rightarrow> bool" where
  "producedBy l ls b \<longleftrightarrow>
     (\<exists>t lang. b = Code t lang) \<or>
     (\<exists>a p z. b = ImageBlock a p z) \<or>
     (isTableLine l \<and> b = Table (fst (collectTable (l # ls)))) \<or>
     (bulletMatch l \<noteq> None \<and> b = Bullets (fst (collectBullets (l # ls)))) \<or>
     (trim l \<noteq> [] \<and> b = Paragraph (joinWith [10] (fst (collectParagraph (l # ls)))))"

lemma allBlocks_codeBlock_update [simp]: "allBlocks (st\<lparr>codeBlock := x\<rparr>) = allBlocks st"
  by (simp add: allBlocks_def)

lemma blocks_ensureSlide: "allBlocks (ensureSlide st None) = allBlocks st"
  by (simp add: allBlocks_def allSlides_ensureSlide)

lemma blocks_appendBlock: "allBlocks (appendBlock st b) = allBlocks st @ [b]"
  unfolding appendBlock_def by (rule blocks_onCurrent_ensure) simp

lemma blocks_appendCodeBlock:
  "allBlocks (appendCodeBlock st) =
     allBlocks st @ (case codeBlock st of
                       None \<Rightarrow> []
                     | Some cb \<Rightarrow> [Code (joinWith [10] (snd cb)) (fst cb)])"
  by (cases "codeBlock st") (simp_all add: appendCodeBlock_def blocks_appendBlock)

lemma blocks_same_onCurrent:
  assumes "\<And>s. blocks (f s) = blocks s"
  shows "allBlocks (onCurrent f (ensureSlide st None)) = allBlocks st"
  using blocks_onCurrent_ensure [of f "[]" st] assms by simp

lemma blocks_appendNote: "allBlocks (appendNote st x) = allBlocks st"
  unfolding appendNote_def Let_def by (rule blocks_same_onCurrent) simp

lemma blocks_updateBackground: "allBlocks (updateBackground st x) = allBlocks st"
proof (cases "trim (stripBackground x) = []")
  case True
  then show ?thesis
    by (simp add: updateBackground_def Let_def blocks_ensureSlide)
next
  case False
  have "allBlocks (onCurrent (\<lambda>s. s\<lparr>background := Some (trim (stripBackground x))\<rparr>)
          (ensureSlide st None)) = allBlocks st"
    by (rule blocks_same_onCurrent) simp
  with False show ?thesis
    by (simp add: updateBackground_def Let_def)
qed

lemma blocks_startNewSlide: "allBlocks (startNewSlide st (Some t)) = allBlocks st"
  by (simp add: allBlocks_def allSlides_startNewSlide)

lemma parseLine_blocks:
  assumes "parseLine st l ls = (st', rest)"
  shows "allBlocks st' = allBlocks st \<or>
         (\<exists>b. allBlocks st' = allBlocks st @ [b] \<and> producedBy l ls b)"
  using assms
proof (cases rule: parseLine_cases)
  case (closeFence cb)
  then show ?thesis
    by (simp add: blocks_appendCodeBlock producedBy_def)
next
  case (subtitle t)
  have "allBlocks (onCurrent (\<lambda>s. s\<lparr>subtitle := Some t\<rparr>) (ensureSlide st None)) = allBlocks st"
    by (rule blocks_same_onCurrent) simp
  with subtitle show ?thesis by simp
qed (simp_all add: blocks_appendBlock blocks_appendNote blocks_updateBackground
      blocks_startNewSlide producedBy_def del: collectTable.simps collectBullets.simps
      collectParagraph.simps)

text \<open>A property of blocks that holds of every block a turn can add holds of every block
  of the result.\<close>

lemma parseLines_blocks:
  assumes "\<forall>b \<in> set (allBlocks st). P b"
    and "\<And>l ls' b. l \<in> set ls \<Longrightarrow> set ls' \<subseteq> set ls \<Longrightarrow> producedBy l ls' b \<Longrightarrow> P b"
  shows "\<forall>b \<in> set (allBlocks (parseLines st ls)). P b"
  using assms
proof (induction st ls rule: parseLines.induct)
  case (1 st)
  then show ?case by simp
next
  case (2 st l ls)
  obtain st' rest where step: "parseLine st l ls = (st', rest)"
    by (cases "parseLine st l ls")
  have sub: "set rest \<subseteq> set (l # ls)"
    by (rule parseLine_suffix [OF step])
  have new: "P b" if "producedBy l ls b" for b
    using that "2.prems"(2) [of l ls b] by auto
  have "\<forall>b \<in> set (allBlocks st'). P b"
    using parseLine_blocks [OF step] "2.prems"(1) new by auto
  moreover have "P b" if "x \<in> set rest" "set ls' \<subseteq> set rest" "producedBy x ls' b" for x ls' b
    using that sub "2.prems"(2) [of x ls' b] by blast
  ultimately have "\<forall>b \<in> set (allBlocks (parseLines st' rest)). P b"
    using "2.IH" [OF step [symmetric]] by blast
  then show ?case
    using step by simp
qed

lemma parseSlides_blocks:
  assumes "\<And>l ls' b. l \<in> set (splitOn 10 (normalizeNewlines rawText)) \<Longrightarrow>
             set ls' \<subseteq> set (splitOn 10 (normalizeNewlines rawText)) \<Longrightarrow>
             producedBy l ls' b \<Longrightarrow> P b"
    and "\<And>t lang. P (Code t lang)"
    and "s \<in> set (parseSlides rawText)" and "b \<in> set (blocks s)"
  shows "P b"
proof -
  let ?st = "parseLines \<lparr>slides = [], current = None, codeBlock = None\<rparr>
      (splitOn 10 (normalizeNewlines rawText))"
  have "\<forall>b \<in> set (allBlocks ?st). P b"
    by (rule parseLines_blocks) (auto simp: allBlocks_def allSlides_def intro: assms(1))
  then have "\<forall>b \<in> set (allBlocks (appendCodeBlock ?st)). P b"
    using assms(2) by (auto simp: blocks_appendCodeBlock split: option.splits)
  moreover have "parseSlides rawText = allSlides (appendCodeBlock ?st)"
    by (simp add: parseSlides_def Let_def slides_finalize)
  ultimately show ?thesis
    using assms(3,4) by (auto simp: allBlocks_def)
qed

section \<open>Bullet items\<close>

text \<open>The width of an indent as the specification words it: a tab counts as two spaces,
  every other character as one.\<close>

definition indentWidth :: "jsstring \<Rightarrow> nat" where
  "indentWidth ws = sum_list (map (\<lambda>c. if c = 9 then 2 else 1) ws)"

lemma length_expandTabs: "length (expandTabs ws) = indentWidth ws"
  by (induction ws) (simp_all add: expandTabs_def indentWidth_def)

lemma bulletMatch_indent: "bulletMatch raw = Some (ws, marker, r) \<Longrightarrow> ws = takeWhile isSpace raw"
  by (auto simp: bulletMatch_def split: option.splits if_splits)

lemma bulletOf_level:
  "bulletMatch raw = Some m \<Longrightarrow>
   indentLevel (bulletOf m) = min (indentWidth (takeWhile isSpace raw) div 2) 3"
  by (cases m) (auto simp: bulletOf_def Let_def length_expandTabs MAX_INDENT_LEVEL_def
      dest: bulletMatch_indent)

lemma collectBullets_items:
  "it \<in> set (fst (collectBullets ls)) \<Longrightarrow>
   \<exists>raw \<in> set ls. \<exists>m. bulletMatch raw = Some m \<and> it = bulletOf m"
  by (induction ls) (auto split: option.splits prod.splits)

section \<open>When the parser makes a slide\<close>

text \<open>A state from which the parser returns at least one slide: a slide exists, or a
  code fence is open.\<close>

definition active :: "parseState \<Rightarrow> bool" where
  "active st \<longleftrightarrow> allSlides st \<noteq> [] \<or> codeBlock st \<noteq> None"

lemma current_appendBlock: "current (appendBlock st b) \<noteq> None"
  using current_ensureSlide [of st] by (auto simp: appendBlock_def onCurrent_def)

lemma current_appendNote: "current (appendNote st x) \<noteq> None"
  using current_ensureSlide [of st] by (auto simp: appendNote_def Let_def onCurrent_def)

lemma current_updateBackground: "current (updateBackground st x) \<noteq> None"
  using current_ensureSlide [of st] by (auto simp: updateBackground_def Let_def onCurrent_def)

lemma current_appendCodeBlock: "codeBlock st \<noteq> None \<Longrightarrow> current (appendCodeBlock st) \<noteq> None"
  using current_appendBlock by (auto simp: appendCodeBlock_def)

lemma allSlides_grow:
  assumes "parseLine st l ls = (st', rest)" and "allSlides st \<noteq> []"
  shows "allSlides st' \<noteq> []"
proof -
  have "map title (allSlides st') \<noteq> []"
    using parseLine_titles [OF assms(1)] assms(2) by auto
  then show ?thesis by simp
qed

lemma parseLine_active:
  assumes "parseLine st l ls = (st', rest)" and "active st \<or> trim l \<noteq> []"
  shows "active st'"
proof (cases "allSlides st \<noteq> []")
  case True
  then show ?thesis
    using allSlides_grow [OF assms(1)] by (simp add: active_def)
next
  case False
  from assms(1) show ?thesis
  proof (cases rule: parseLine_cases)
    case (closeFence cb)
    then show ?thesis
      using current_appendCodeBlock [of st] by (simp add: active_def allSlides_nonempty)
  next
    case blank
    then show ?thesis
      using assms(2) False by (simp add: active_def)
  next
    case (subtitle t)
    then show ?thesis
      by (simp add: active_def allSlides_nonempty current_onCurrent current_ensureSlide)
  qed (simp_all add: active_def allSlides_nonempty current_appendBlock current_appendNote
      current_updateBackground current_startNewSlide)
qed

lemma parseLine_blank:
  assumes "\<not> active st" and "trim l = []"
  shows "parseLine st l ls = (st, ls)"
proof -
  obtain st' rest where step: "parseLine st l ls = (st', rest)"
    by (cases "parseLine st l ls")
  from step show ?thesis
    using assms step by (cases rule: parseLine_cases) (simp_all add: active_def)
qed

lemma parseLines_active: "active st \<Longrightarrow> active (parseLines st ls)"
proof (induction st ls rule: parseLines.induct)
  case (1 st)
  then show ?case by simp
next
  case (2 st l ls)
  obtain st' rest where step: "parseLine st l ls = (st', rest)"
    by (cases "parseLine st l ls")
  have "active st'"
    using parseLine_active [OF step] "2.prems" by simp
  then have "active (parseLines st' rest)"
    using "2.IH" [OF step [symmetric]] by simp
  then show ?case using step by simp
qed

lemma parseLines_active_iff:
  "\<not> active st \<Longrightarrow> active (parseLines st ls) \<longleftrightarrow> (\<exists>l \<in> set ls. trim l \<noteq> [])"
proof (induction ls)
  case Nil
  then show ?case by simp
next
  case (Cons l ls)
  show ?case
  proof (cases "trim l = []")
    case True
    then show ?thesis
      using Cons parseLine_blank [of st l ls] by simp
  next
    case False
    obtain st' rest where step: "parseLine st l ls = (st', rest)"
      by (cases "parseLine st l ls")
    have "active st'"
      using parseLine_active [OF step] False by simp
    then have "active (parseLines st' rest)"
      by (rule parseLines_active)
    then show ?thesis
      using step False by simp
  qed
qed

lemma finish_empty:
  "slides (finalizeCurrentSlide (appendCodeBlock st)) = [] \<longleftrightarrow> \<not> active st"
proof (cases "codeBlock st")
  case None
  then show ?thesis
    by (simp add: slides_finalize appendCodeBlock_def active_def)
next
  case (Some cb)
  then show ?thesis
    using current_appendCodeBlock [of st] allSlides_nonempty [of "appendCodeBlock st"]
    by (simp add: slides_finalize active_def)
qed

lemma parseSlides_empty_iff:
  "parseSlides rawText = [] \<longleftrightarrow>
     (\<forall>l \<in> set (splitOn 10 (normalizeNewlines rawText)). trim l = [])"
proof -
  have "\<not> active \<lparr>slides = [], current = None, codeBlock = None\<rparr>"
    by (simp add: active_def allSlides_def)
  then show ?thesis
    using parseLines_active_iff [of "\<lparr>slides = [], current = None, codeBlock = None\<rparr>"
        "splitOn 10 (normalizeNewlines rawText)"]
    by (simp add: parseSlides_def Let_def finish_empty del: parseLines.simps)
qed

section \<open>Splitting makes a block smaller\<close>

lemma length_splitOn: "length (splitOn sep s) = Suc (count_list s sep)"
  by (induction s) (auto split: list.splits)

lemma splitOn_no_sep: "l \<in> set (splitOn sep s) \<Longrightarrow> sep \<notin> set l"
  by (induction s arbitrary: l) (auto split: list.splits if_splits)

lemma count_list_0: "x \<notin> set xs \<Longrightarrow> count_list xs x = 0"
  by (induction xs) auto

lemma count_joinWith:
  "\<forall>l \<in> set ls. c \<notin> set l \<Longrightarrow> count_list (joinWith [c] ls) c = length ls - 1"
  by (induction "[c]" ls rule: joinWith.induct) (auto simp: count_list_0)

lemma count_dropWhile: "count_list (dropWhile P xs) x \<le> count_list xs x"
  by (induction xs) auto

lemma lines_of_tail:
  assumes "m < length (splitOn 10 t)"
  shows "length (splitOn 10 (trimStart (joinWith [10] (drop m (splitOn 10 t))))) \<le>
           length (splitOn 10 t) - m"
proof -
  let ?ls = "drop m (splitOn 10 t)"
  have "\<forall>l \<in> set ?ls. 10 \<notin> set l"
    using splitOn_no_sep [of _ 10 t] by (auto dest: in_set_dropD)
  then have "count_list (joinWith [10] ?ls) 10 = length ?ls - 1"
    by (rule count_joinWith)
  moreover have "count_list (trimStart (joinWith [10] ?ls)) 10 \<le> count_list (joinWith [10] ?ls) 10"
    unfolding trimStart_def by (rule count_dropWhile)
  ultimately show ?thesis
    using assms by (simp add: length_splitOn)
qed

lemma maxCount_bounds:
  fixes a h :: rat
  assumes "0 < h" and "of_nat n * h > a" and "1 * h < a"
  shows "1 \<le> nat (max (\<lfloor>a / h\<rfloor> - 1) 1) \<and> nat (max (\<lfloor>a / h\<rfloor> - 1) 1) < n"
proof -
  have "a / h < of_nat n"
    using assms(1,2) by (simp add: pos_divide_less_eq)
  then have "\<lfloor>a / h\<rfloor> < int n"
    by (simp add: floor_less_iff)
  moreover have "1 < (of_nat n :: rat)"
    using assms by (smt (verit) mult_less_cancel_right_pos less_trans)
  then have "1 < n" by simp
  ultimately show ?thesis by auto
qed

lemma renderParagraph_split:
  assumes "renderParagraph t d = (ds, Split nc r)"
  shows "\<exists>m. 1 \<le> m \<and> m < length (splitOn 10 t) \<and>
           ds = [AddText (joinWith [10] (take m (splitOn 10 t))) (dimX d) (dimY d) (width d)
                   (max (availableHeight d) MIN_BLOCK_HEIGHT)] \<and>
           r = Paragraph (trimStart (joinWith [10] (drop m (splitOn 10 t)))) \<and>
           nc = dimY d + availableHeight d"
proof -
  let ?n = "length (splitOn 10 t)"
  let ?m = "nat (max (\<lfloor>availableHeight d / LINE_HEIGHT\<rfloor> - 1) 1)"
  have c: "\<not> max (of_nat ?n * LINE_HEIGHT) MIN_BLOCK_HEIGHT \<le> availableHeight d"
    "\<not> availableHeight d < MIN_BLOCK_HEIGHT"
    using assms by (auto simp: renderParagraph_def Let_def split: if_splits)
  then have "of_nat ?n * LINE_HEIGHT > availableHeight d" "1 * LINE_HEIGHT < availableHeight d"
    by (auto simp: LINE_HEIGHT_def MIN_BLOCK_HEIGHT_def)
  then have "1 \<le> ?m \<and> ?m < ?n"
    by (intro maxCount_bounds) (simp_all add: LINE_HEIGHT_def)
  moreover have "ds = [AddText (joinWith [10] (take ?m (splitOn 10 t))) (dimX d) (dimY d) (width d)
                   (max (availableHeight d) MIN_BLOCK_HEIGHT)]"
    "r = Paragraph (trimStart (joinWith [10] (drop ?m (splitOn 10 t))))"
    "nc = dimY d + availableHeight d"
    using assms c by (auto simp: renderParagraph_def Let_def)
  ultimately show ?thesis by blast
qed

lemma renderBullets_split:
  assumes "renderBullets items d = (ds, Split nc r)"
  shows "\<exists>m. 1 \<le> m \<and> m < length items \<and>
           ds = [AddBullets (take m items) (dimX d) (dimY d) (width d)
                   (max (min (max (of_nat (length items) * BULLET_LINE_HEIGHT) MIN_BLOCK_HEIGHT)
                      (availableHeight d)) MIN_BLOCK_HEIGHT)] \<and>
           r = Bullets (drop m items) \<and>
           nc = dimY d + availableHeight d"
proof -
  let ?n = "length items"
  let ?m = "nat (max (\<lfloor>availableHeight d / BULLET_LINE_HEIGHT\<rfloor> - 1) 1)"
  have c: "\<not> max (of_nat ?n * BULLET_LINE_HEIGHT) MIN_BLOCK_HEIGHT \<le> availableHeight d"
    "\<not> availableHeight d < MIN_BLOCK_HEIGHT" "?n \<noteq> 0"
    using assms by (auto simp: renderBullets_def Let_def split: if_splits)
  then have "of_nat ?n * BULLET_LINE_HEIGHT > availableHeight d"
    "1 * BULLET_LINE_HEIGHT < availableHeight d"
    by (auto simp: BULLET_LINE_HEIGHT_def MIN_BLOCK_HEIGHT_def)
  then have "1 \<le> ?m \<and> ?m < ?n"
    by (intro maxCount_bounds) (simp_all add: BULLET_LINE_HEIGHT_def)
  moreover have "ds = [AddBullets (take ?m items) (dimX d) (dimY d) (width d)
                   (max (min (max (of_nat (length items) * BULLET_LINE_HEIGHT) MIN_BLOCK_HEIGHT)
                      (availableHeight d)) MIN_BLOCK_HEIGHT)]"
    "r = Bullets (drop ?m items)"
    "nc = dimY d + availableHeight d"
    using assms c by (auto simp: renderBullets_def Let_def split: if_splits)
  ultimately show ?thesis by blast
qed

lemma renderCode_split:
  assumes "renderCode t lang d = (ds, Split nc r)"
  shows "\<exists>m. 1 \<le> m \<and> m < length (splitOn 10 t) \<and>
           ds = [AddText (joinWith [10] (take m (splitOn 10 t))) (dimX d) (dimY d) (width d)
                   (max (min (max (of_nat (length (splitOn 10 t)) * CODE_LINE_HEIGHT + 2 / 10)
                      MIN_BLOCK_HEIGHT) (availableHeight d)) MIN_BLOCK_HEIGHT)] \<and>
           r = Code (trimStart (joinWith [10] (drop m (splitOn 10 t)))) lang \<and>
           nc = dimY d + availableHeight d"
proof -
  let ?n = "length (splitOn 10 t)"
  let ?m = "nat (max (\<lfloor>(availableHeight d - 2 / 10) / CODE_LINE_HEIGHT\<rfloor> - 1) 1)"
  have c: "\<not> max (of_nat ?n * CODE_LINE_HEIGHT + 2 / 10) MIN_BLOCK_HEIGHT \<le> availableHeight d"
    "\<not> availableHeight d < MIN_BLOCK_HEIGHT"
    using assms by (auto simp: renderCode_def Let_def split: if_splits)
  then have "of_nat ?n * CODE_LINE_HEIGHT > availableHeight d - 2 / 10"
    "1 * CODE_LINE_HEIGHT < availableHeight d - 2 / 10"
    by (auto simp: CODE_LINE_HEIGHT_def MIN_BLOCK_HEIGHT_def)
  then have "1 \<le> ?m \<and> ?m < ?n"
    by (intro maxCount_bounds) (simp_all add: CODE_LINE_HEIGHT_def)
  moreover have "ds = [AddText (joinWith [10] (take ?m (splitOn 10 t))) (dimX d) (dimY d) (width d)
                   (max (min (max (of_nat (length (splitOn 10 t)) * CODE_LINE_HEIGHT + 2 / 10)
                      MIN_BLOCK_HEIGHT) (availableHeight d)) MIN_BLOCK_HEIGHT)]"
    "r = Code (trimStart (joinWith [10] (drop ?m (splitOn 10 t)))) lang"
    "nc = dimY d + availableHeight d"
    using assms c by (auto simp: renderCode_def Let_def split: if_splits)
  ultimately show ?thesis by blast
qed

lemma renderImage_no_split: "renderImage alt path sz d \<noteq> (ds, Split nc r)"
  by (auto simp: renderImage_def Let_def)

lemma renderTable_no_split: "renderTable rows d \<noteq> (ds, Split nc r)"
  by (auto simp: renderTable_def Let_def)

lemma renderBlock_split_smaller:
  assumes "renderBlock b d = (ds, Split nc r)"
  shows "blockSize r < blockSize b \<and> 2 \<le> blockSize b \<and> nc = dimY d + availableHeight d"
proof (cases b)
  case (Paragraph t)
  then obtain m where "1 \<le> m" "m < length (splitOn 10 t)"
    "r = Paragraph (trimStart (joinWith [10] (drop m (splitOn 10 t))))"
    "nc = dimY d + availableHeight d"
    using assms renderParagraph_split [of t d ds nc r] by auto
  then show ?thesis
    using Paragraph lines_of_tail [of m t] by simp
next
  case (Bullets items)
  then obtain m where "1 \<le> m" "m < length items" "r = Bullets (drop m items)"
    "nc = dimY d + availableHeight d"
    using assms renderBullets_split [of items d ds nc r] by auto
  then show ?thesis
    using Bullets by simp
next
  case (ImageBlock alt path sz)
  then show ?thesis using assms renderImage_no_split by simp
next
  case (Code t lang)
  then obtain m where "1 \<le> m" "m < length (splitOn 10 t)"
    "r = Code (trimStart (joinWith [10] (drop m (splitOn 10 t)))) lang"
    "nc = dimY d + availableHeight d"
    using assms renderCode_split [of t lang d ds nc r] by auto
  then show ?thesis
    using Code lines_of_tail [of m t] by simp
next
  case (Table rows)
  then show ?thesis using assms renderTable_no_split by simp
qed

lemma renderBlock_no_defer:
  "MIN_BLOCK_HEIGHT \<le> availableHeight d \<Longrightarrow> snd (renderBlock b d) \<noteq> Defer"
  by (cases b)
    (auto simp: renderParagraph_def renderBullets_def renderImage_def renderCode_def
      renderTable_def Let_def MIN_BLOCK_HEIGHT_def)

section \<open>Pagination\<close>

record renderOptions =
  defaultBackground :: "jsstring option"

text \<open>A slide of the output: its background and the calls made on it, in order.\<close>

record page =
  pageBackground :: "jsstring option"
  calls :: "drawing list"

text \<open>\<open>computeSafeArea\<close>, from the width and height of the layout of the presentation.\<close>

definition computeSafeArea :: "rat \<Rightarrow> rat \<Rightarrow> rat \<times> rat" where
  "computeSafeArea presWidth presHeight =
     (let w = (if presWidth > 1000 then presWidth / EMU_PER_INCH else presWidth);
          h = (if presHeight > 1000 then presHeight / EMU_PER_INCH else presHeight)
      in (w - SAFE_MARGIN_X * 2, h - SAFE_MARGIN_BOTTOM))"

definition blockDims :: "rat \<Rightarrow> rat \<Rightarrow> rat \<Rightarrow> renderDimensions" where
  "blockDims safeWidth sBottom cursor =
     \<lparr>dimX = SAFE_MARGIN_X, dimY = cursor, width = safeWidth,
      availableHeight = sBottom - cursor, safeBottom = sBottom\<rparr>"

text \<open>The work left in a queue of blocks.\<close>

definition queueSize :: "block list \<Rightarrow> nat" where
  "queueSize q = sum_list (map (\<lambda>b. Suc (blockSize b)) q)"

lemma split_smaller_sym:
  "(ds, res) = renderBlock b d \<Longrightarrow> res = Split nc r \<Longrightarrow> blockSize r < blockSize b"
  using renderBlock_split_smaller [of b d ds nc r] by simp

text \<open>
  The inner loop of \<open>renderSlides\<close>: it places blocks from the head of the queue on the
  current slide. Its state is the queue, the cursor, the flag \<open>consumed\<close> and the calls
  made on the slide so far.
\<close>

function placeBlocks ::
  "rat \<Rightarrow> rat \<Rightarrow> block list \<Rightarrow> rat \<Rightarrow> bool \<Rightarrow> drawing list \<Rightarrow>
   block list \<times> rat \<times> bool \<times> drawing list" where
  "placeBlocks safeWidth sBottom [] cursor consumed cs = ([], cursor, consumed, cs)"
| "placeBlocks safeWidth sBottom (block # queue) cursor consumed cs =
     (case renderBlock block (blockDims safeWidth sBottom cursor) of
        (ds, Defer) \<Rightarrow> (block # queue, cursor, consumed, cs @ ds)
      | (ds, Rendered nextCursor) \<Rightarrow>
          if nextCursor + BLOCK_GAP \<ge> sBottom - BLOCK_GAP
          then (queue, nextCursor + BLOCK_GAP, True, cs @ ds)
          else placeBlocks safeWidth sBottom queue (nextCursor + BLOCK_GAP) True (cs @ ds)
      | (ds, Split nextCursor remainder) \<Rightarrow>
          if nextCursor + BLOCK_GAP \<ge> sBottom - BLOCK_GAP
          then (remainder # queue, nextCursor + BLOCK_GAP, True, cs @ ds)
          else placeBlocks safeWidth sBottom (remainder # queue) (nextCursor + BLOCK_GAP) True
                 (cs @ ds))"
  by pat_completeness auto
termination
  apply (relation "measure (\<lambda>(safeWidth, sBottom, q, cursor, consumed, cs). queueSize q)")
  subgoal by simp
  subgoal by (simp add: queueSize_def)
  subgoal premises p
    using p split_smaller_sym by (auto simp: queueSize_def)
  done


lemma placeBlocks_progress:
  "placeBlocks w sb q c consumed cs = (q', c', consumed', cs') \<Longrightarrow>
   queueSize q' \<le> queueSize q \<and>
   (consumed \<longrightarrow> consumed') \<and>
   (\<not> consumed' \<longrightarrow> q' = q \<and> c' = c) \<and>
   (consumed' \<and> \<not> consumed \<longrightarrow> queueSize q' < queueSize q)"
proof (induction w sb q c consumed cs arbitrary: q' c' consumed' cs' rule: placeBlocks.induct)
  case (1 safeWidth sBottom cursor consumed cs)
  then show ?case by simp
next
  case (2 safeWidth sBottom block queue cursor consumed cs)
  obtain ds res where r: "renderBlock block (blockDims safeWidth sBottom cursor) = (ds, res)"
    by (cases "renderBlock block (blockDims safeWidth sBottom cursor)")
  show ?case
  proof (cases res)
    case (Rendered nc)
    show ?thesis
    proof (cases "nc + BLOCK_GAP \<ge> sBottom - BLOCK_GAP")
      case True
      then show ?thesis
        using "2.prems" r Rendered by (auto simp: queueSize_def)
    next
      case False
      then have "placeBlocks safeWidth sBottom queue (nc + BLOCK_GAP) True (cs @ ds) =
          (q', c', consumed', cs')"
        using "2.prems" r Rendered by simp
      from "2.IH"(1) [OF r [symmetric] Rendered False this] show ?thesis
        by (auto simp: queueSize_def)
    qed
  next
    case (Split nc remainder)
    have sm: "blockSize remainder < blockSize block"
      using renderBlock_split_smaller r Split by blast
    show ?thesis
    proof (cases "nc + BLOCK_GAP \<ge> sBottom - BLOCK_GAP")
      case True
      then show ?thesis
        using "2.prems" r Split sm by (auto simp: queueSize_def)
    next
      case False
      then have "placeBlocks safeWidth sBottom (remainder # queue) (nc + BLOCK_GAP) True (cs @ ds) =
          (q', c', consumed', cs')"
        using "2.prems" r Split by simp
      from "2.IH"(2) [OF r [symmetric] Split False this] show ?thesis
        using sm by (auto simp: queueSize_def)
    qed
  next
    case Defer
    then show ?thesis
      using "2.prems" r by auto
  qed
qed

lemma placeBlocks_progress_sym:
  "(q', c', consumed', cs') = placeBlocks w sb q c False cs \<Longrightarrow>
   (\<not> consumed' \<longrightarrow> q' = q \<and> c' = c) \<and> (consumed' \<longrightarrow> queueSize q' < queueSize q)"
  using placeBlocks_progress [of w sb q c False cs q' c' consumed' cs'] by simp

definition truthy :: "jsstring option \<Rightarrow> bool" where
  "truthy v \<longleftrightarrow> (case v of None \<Rightarrow> False | Some s \<Rightarrow> s \<noteq> [])"

text \<open>The start of every slide: the background, the title and the subtitle.\<close>

definition slideBackground :: "slideSpec \<Rightarrow> renderOptions \<Rightarrow> jsstring option" where
  "slideBackground spec options =
     (if truthy (background spec) then background spec
      else if truthy (defaultBackground options) then defaultBackground options
      else None)"

definition slideHeader :: "rat \<Rightarrow> slideSpec \<Rightarrow> nat \<Rightarrow> drawing list" where
  "slideHeader safeWidth spec sequence =
     (let slideTitle = (if sequence = 0 then title spec else title spec @ str '' (cont.)'')
      in AddText slideTitle SAFE_MARGIN_X TITLE_Y safeWidth (8 / 10) #
         (case subtitle spec of
            None \<Rightarrow> []
          | Some s \<Rightarrow> if s \<noteq> [] then [AddText s SAFE_MARGIN_X SUBTITLE_Y safeWidth (6 / 10)]
                      else []))"

definition notesCalls :: "slideSpec \<Rightarrow> bool \<Rightarrow> drawing list" where
  "notesCalls spec firstSlide =
     (case slideNotes spec of
        None \<Rightarrow> []
      | Some n \<Rightarrow> if firstSlide \<and> n \<noteq> [] then [AddNotes n] else [])"

text \<open>
  The outer loop of \<open>renderSlides\<close> for one slide specification: the slides it adds
  to the presentation.
\<close>

function renderPages ::
  "rat \<Rightarrow> rat \<Rightarrow> slideSpec \<Rightarrow> renderOptions \<Rightarrow> block list \<Rightarrow> nat \<Rightarrow> bool \<Rightarrow> page list" where
  "renderPages safeWidth sBottom spec options queue sequence firstSlide =
     (if queue \<noteq> [] \<or> firstSlide then
        (case placeBlocks safeWidth sBottom queue BODY_TOP False
                (slideHeader safeWidth spec sequence) of
           (queue1, cursor, consumed, cs) \<Rightarrow>
             (case queue1 of
                [] \<Rightarrow> [\<lparr>pageBackground = slideBackground spec options,
                        calls = cs @ notesCalls spec firstSlide\<rparr>]
              | block # rest \<Rightarrow>
                  if \<not> consumed then
                    (if cursor \<noteq> BODY_TOP then
                       \<lparr>pageBackground = slideBackground spec options,
                        calls = cs @ notesCalls spec firstSlide\<rparr> #
                       renderPages safeWidth sBottom spec options queue1 (sequence + 1) False
                     else
                       (case renderBlock block (blockDims safeWidth sBottom cursor) of
                          (ds, Rendered nc) \<Rightarrow>
                            \<lparr>pageBackground = slideBackground spec options,
                             calls = cs @ notesCalls spec firstSlide @ ds\<rparr> #
                            renderPages safeWidth sBottom spec options rest (sequence + 1) False
                        | (ds, Split nc remainder) \<Rightarrow>
                            \<lparr>pageBackground = slideBackground spec options,
                             calls = cs @ notesCalls spec firstSlide @ ds\<rparr> #
                            renderPages safeWidth sBottom spec options (remainder # rest)
                              (sequence + 1) False
                        | (ds, Defer) \<Rightarrow>
                            [\<lparr>pageBackground = slideBackground spec options,
                              calls = cs @ notesCalls spec firstSlide @ ds\<rparr>]))
                  else
                    \<lparr>pageBackground = slideBackground spec options,
                     calls = cs @ notesCalls spec firstSlide\<rparr> #
                    renderPages safeWidth sBottom spec options queue1 (sequence + 1) False))
      else [])"
  by pat_completeness auto
termination
  apply (relation "measure (\<lambda>(safeWidth, sBottom, spec, options, q, sequence, firstSlide).
      queueSize q)")
  subgoal by simp
  subgoal by (auto dest: placeBlocks_progress_sym)
  subgoal by (auto simp: queueSize_def dest!: placeBlocks_progress_sym)
  subgoal by (auto simp: queueSize_def dest!: placeBlocks_progress_sym split_smaller_sym)
  subgoal by (auto dest: placeBlocks_progress_sym)
  done

declare renderPages.simps [simp del]

text \<open>
  \<open>renderSlides\<close>: the slides added for every specification in turn. The width and
  height of the layout come from the presentation library; they are parameters here.
\<close>

definition renderSpec :: "rat \<Rightarrow> rat \<Rightarrow> renderOptions \<Rightarrow> slideSpec \<Rightarrow> page list" where
  "renderSpec safeWidth sBottom options spec =
     renderPages safeWidth sBottom spec options (blocks spec) 0 True"

definition renderSlides :: "rat \<Rightarrow> rat \<Rightarrow> slideSpec list \<Rightarrow> renderOptions \<Rightarrow> page list" where
  "renderSlides presWidth presHeight specs options =
     (case computeSafeArea presWidth presHeight of
        (safeWidth, sBottom) \<Rightarrow> concat (map (renderSpec safeWidth sBottom options) specs))"

section \<open>Splitting a bullets block\<close>

text \<open>Fifty distinct items, numbered from 0, and a page whose available height is ten
  bullet lines.\<close>

definition fiftyItems :: "bulletItem list" where
  "fiftyItems =
     map (\<lambda>i. \<lparr>itemText = decimal i, bulletType = BulletMark, indentLevel = 0\<rparr>) [0..<50]"

definition tenLineDims :: renderDimensions where
  "tenLineDims = \<lparr>dimX = 6 / 10, dimY = 16 / 10, width = 88 / 10,
                  availableHeight = 38 / 10, safeBottom = 54 / 10\<rparr>"

lemma floor_ten:
  fixes a :: rat
  assumes "10 * BULLET_LINE_HEIGHT \<le> a" and "a < 11 * BULLET_LINE_HEIGHT"
  shows "\<lfloor>a / BULLET_LINE_HEIGHT\<rfloor> = 10"
proof -
  have "10 \<le> a / BULLET_LINE_HEIGHT" "a / BULLET_LINE_HEIGHT < 11"
    using assms by (simp_all add: BULLET_LINE_HEIGHT_def)
  then show ?thesis
    by (simp add: floor_unique)
qed

lemma renderBullets_fifty:
  assumes "length items = 50"
    and "10 * BULLET_LINE_HEIGHT \<le> availableHeight dims"
    and "availableHeight dims < 11 * BULLET_LINE_HEIGHT"
  shows "renderBullets items dims =
     ([AddBullets (take 9 items) (dimX dims) (dimY dims) (width dims) (availableHeight dims)],
      Split (dimY dims + availableHeight dims) (Bullets (drop 9 items)))"
proof -
  have f: "\<lfloor>availableHeight dims / BULLET_LINE_HEIGHT\<rfloor> = 10"
    using assms(2,3) by (rule floor_ten)
  have h: "38 / 10 \<le> availableHeight dims" "availableHeight dims < 418 / 100"
    using assms(2,3) by (simp_all add: BULLET_LINE_HEIGHT_def)
  have n: "max (of_nat (length items) * BULLET_LINE_HEIGHT) MIN_BLOCK_HEIGHT = 19"
    by (simp add: assms(1) BULLET_LINE_HEIGHT_def MIN_BLOCK_HEIGHT_def)
  have c: "\<not> 19 \<le> availableHeight dims" "\<not> availableHeight dims < MIN_BLOCK_HEIGHT"
    "min 19 (availableHeight dims) = availableHeight dims"
    "max (availableHeight dims) MIN_BLOCK_HEIGHT = availableHeight dims"
    using h by (simp_all add: MIN_BLOCK_HEIGHT_def)
  show ?thesis
    unfolding renderBullets_def Let_def n f
    by (simp add: assms(1) c)
qed

section \<open>Splitting a block again and again\<close>

text \<open>What a call draws: the lines of a text, the items of a list.\<close>

fun drawnLines :: "drawing \<Rightarrow> jsstring list" where
  "drawnLines (AddText t x y w h) = splitOn 10 t"
| "drawnLines d = []"

fun drawnItems :: "drawing \<Rightarrow> bulletItem list" where
  "drawnItems (AddBullets items x y w h) = items"
| "drawnItems d = []"

text \<open>
  The results of rendering a block on one page after the other, each page with its own
  dimensions: after a split the remainder goes to the next page; the first result that is
  not a split ends the sequence.
\<close>

fun splitChain :: "block \<Rightarrow> renderDimensions list \<Rightarrow> renderResult list" where
  "splitChain b [] = []"
| "splitChain b (d # ds) =
     (case snd (renderBlock b d) of
        Split nc r \<Rightarrow> Split nc r # splitChain r ds
      | Rendered nc \<Rightarrow> [Rendered nc]
      | Defer \<Rightarrow> [Defer])"

lemma splitOn_joinWith:
  "ls \<noteq> [] \<Longrightarrow> \<forall>l \<in> set ls. c \<notin> set l \<Longrightarrow> splitOn c (joinWith [c] ls) = ls"
proof (induction "[c]" ls rule: joinWith.induct)
  case 1
  then show ?case by simp
next
  case (2 x)
  then have "c \<notin> set x" by simp
  then show ?case
    by (induction x) auto
next
  case (3 x y ys)
  then have ih: "splitOn c (joinWith [c] (y # ys)) = y # ys" by simp
  have "c \<notin> set x" using 3 by simp
  then have "splitOn c (x @ c # joinWith [c] (y # ys)) = x # y # ys"
    using ih by (induction x) auto
  then show ?case by simp
qed

lemma take_lines:
  assumes "1 \<le> m"
  shows "splitOn 10 (joinWith [10] (take m (splitOn 10 t))) = take m (splitOn 10 t)"
proof (rule splitOn_joinWith)
  have "splitOn 10 t \<noteq> []"
    using length_splitOn [of 10 t] by auto
  then show "take m (splitOn 10 t) \<noteq> []"
    using assms by simp
  show "\<forall>l \<in> set (take m (splitOn 10 t)). 10 \<notin> set l"
    using splitOn_no_sep [of _ 10 t] by (auto dest: in_set_takeD)
qed

lemma renderBlock_split_head:
  assumes "renderBlock b dims = (ds, Split nc r)"
  shows "\<exists>m d. ds = [d] \<and> 1 \<le> m \<and> m < blockSize b \<and>
           (case b of
              Paragraph t \<Rightarrow> drawnLines d = take m (splitOn 10 t)
            | Code t lang \<Rightarrow> drawnLines d = take m (splitOn 10 t)
            | Bullets items \<Rightarrow> drawnItems d = take m items
            | _ \<Rightarrow> False)"
proof (cases b)
  case (Paragraph t)
  then obtain m where "1 \<le> m" "m < length (splitOn 10 t)"
    "ds = [AddText (joinWith [10] (take m (splitOn 10 t))) (dimX dims) (dimY dims) (width dims)
                   (max (availableHeight dims) MIN_BLOCK_HEIGHT)]"
    using assms renderParagraph_split [of t dims ds nc r] by auto
  then show ?thesis
    using Paragraph take_lines [of m t] by auto
next
  case (Bullets items)
  then obtain m where "1 \<le> m" "m < length items"
    "ds = [AddBullets (take m items) (dimX dims) (dimY dims) (width dims)
                   (max (min (max (of_nat (length items) * BULLET_LINE_HEIGHT) MIN_BLOCK_HEIGHT)
                      (availableHeight dims)) MIN_BLOCK_HEIGHT)]"
    using assms renderBullets_split [of items dims ds nc r] by auto
  then show ?thesis
    using Bullets by auto
next
  case (ImageBlock alt path sz)
  then show ?thesis using assms renderImage_no_split by simp
next
  case (Code t lang)
  then obtain m where "1 \<le> m" "m < length (splitOn 10 t)"
    "ds = [AddText (joinWith [10] (take m (splitOn 10 t))) (dimX dims) (dimY dims) (width dims)
                   (max (min (max (of_nat (length (splitOn 10 t)) * CODE_LINE_HEIGHT + 2 / 10)
                      MIN_BLOCK_HEIGHT) (availableHeight dims)) MIN_BLOCK_HEIGHT)]"
    using assms renderCode_split [of t lang dims ds nc r] by auto
  then show ?thesis
    using Code take_lines [of m t] by auto
next
  case (Table rows)
  then show ?thesis using assms renderTable_no_split by simp
qed

lemma splitChain_length: "length (splitChain b dl) \<le> max 1 (blockSize b)"
proof (induction dl arbitrary: b)
  case Nil
  show ?case by simp
next
  case (Cons d dl)
  obtain ds res where r: "renderBlock b d = (ds, res)"
    by (cases "renderBlock b d")
  show ?case
  proof (cases res)
    case (Split nc rem)
    then have "blockSize rem < blockSize b" "2 \<le> blockSize b"
      using renderBlock_split_smaller [of b d ds nc rem] r by simp_all
    then show ?thesis
      using Cons [of rem] r Split by simp
  qed (simp_all add: r)
qed

lemma splitChain_rendered:
  assumes "max 1 (blockSize b) \<le> length dl"
    and "\<forall>d \<in> set dl. MIN_BLOCK_HEIGHT \<le> availableHeight d"
  shows "\<exists>nc. last (splitChain b dl) = Rendered nc"
  using assms
proof (induction dl arbitrary: b)
  case Nil
  then show ?case by simp
next
  case (Cons d dl)
  obtain ds res where r: "renderBlock b d = (ds, res)"
    by (cases "renderBlock b d")
  show ?case
  proof (cases res)
    case (Rendered nc)
    then show ?thesis by (simp add: r)
  next
    case (Split nc rem)
    then have sm: "blockSize rem < blockSize b" "2 \<le> blockSize b"
      using renderBlock_split_smaller [of b d ds nc rem] r by simp_all
    then have "max 1 (blockSize rem) \<le> length dl"
      using Cons.prems(1) by simp
    then obtain nc' where l: "last (splitChain rem dl) = Rendered nc'"
      using Cons.IH [of rem] Cons.prems(2) by auto
    have "splitChain rem dl \<noteq> []"
      using \<open>max 1 (blockSize rem) \<le> length dl\<close> by (cases dl) (auto split: renderResult.splits)
    then show ?thesis
      using l r Split by simp
  next
    case Defer
    then show ?thesis
      using renderBlock_no_defer [of d b] Cons.prems(2) r by simp
  qed
qed

text \<open>A paragraph of three lines and a page with room for two.\<close>

definition threeLines :: block where
  "threeLines = Paragraph (str ''a\<newline>b\<newline>c'')"

definition shortDims :: renderDimensions where
  "shortDims = \<lparr>dimX = 6 / 10, dimY = 16 / 10, width = 88 / 10,
                availableHeight = 7 / 10, safeBottom = 23 / 10\<rparr>"

section \<open>A single block that cannot be split\<close>

fun splittable :: "block \<Rightarrow> bool" where
  "splittable (Paragraph t) = True"
| "splittable (Bullets items) = True"
| "splittable (Code t lang) = True"
| "splittable (ImageBlock alt path sz) = False"
| "splittable (Table rows) = False"

text \<open>The vertical position of a call that draws a block.\<close>

fun drawnAt :: "drawing \<Rightarrow> rat option" where
  "drawnAt (AddText t x y w h) = Some y"
| "drawnAt (AddBullets items x y w h) = Some y"
| "drawnAt (AddImage path alt sz x y w h) = Some y"
| "drawnAt (AddTable rows x y w) = Some y"
| "drawnAt (AddNotes n) = None"

lemma unsplittable_fits:
  assumes "\<not> splittable b" and "MIN_BLOCK_HEIGHT \<le> sBottom - BODY_TOP"
  shows "\<exists>d nc. renderBlock b (blockDims safeWidth sBottom BODY_TOP) = ([d], Rendered nc) \<and>
           drawnAt d = Some BODY_TOP"
  using assms
  by (cases b)
    (auto simp: renderImage_def renderTable_def blockDims_def Let_def MIN_BLOCK_HEIGHT_def)

lemma unsplittable_deferred:
  assumes "\<not> splittable b" and "sBottom - BODY_TOP < MIN_BLOCK_HEIGHT"
  shows "renderBlock b (blockDims safeWidth sBottom BODY_TOP) = ([], Defer)"
  using assms
  by (cases b)
    (auto simp: renderImage_def renderTable_def blockDims_def Let_def MIN_BLOCK_HEIGHT_def
      TABLE_BASE_HEIGHT_def TABLE_ROW_HEIGHT_def max_def)

text \<open>In \<open>txt2ppt.ts\<close> the loop ends with one slide on a page of any height; on a
  page too low for any block the forced placement is deferred as well, and the block is
  dropped without being drawn.\<close>

lemma unsplittable_pages:
  assumes "\<not> splittable b"
  shows "renderPages safeWidth sBottom spec options [b] 0 True =
     [\<lparr>pageBackground = slideBackground spec options,
       calls = slideHeader safeWidth spec 0 @
               fst (renderBlock b (blockDims safeWidth sBottom BODY_TOP)) @
               notesCalls spec True\<rparr>]"
proof (cases "MIN_BLOCK_HEIGHT \<le> sBottom - BODY_TOP")
  case True
  then obtain d nc where r: "renderBlock b (blockDims safeWidth sBottom BODY_TOP) = ([d], Rendered nc)"
    using unsplittable_fits [OF assms] by blast
  have "placeBlocks safeWidth sBottom [b] BODY_TOP False (slideHeader safeWidth spec 0) =
      ([], nc + BLOCK_GAP, True, slideHeader safeWidth spec 0 @ [d])"
    by (simp add: r)
  then show ?thesis
    by (subst renderPages.simps) (simp add: r)
next
  case False
  then have r: "renderBlock b (blockDims safeWidth sBottom BODY_TOP) = ([], Defer)"
    using unsplittable_deferred [OF assms] by simp
  have "placeBlocks safeWidth sBottom [b] BODY_TOP False (slideHeader safeWidth spec 0) =
      ([b], BODY_TOP, False, slideHeader safeWidth spec 0)"
    by (simp add: r)
  then show ?thesis
    by (subst renderPages.simps) (simp add: r)
qed

text \<open>A table of twenty rows and a slide specification with a title and this table
  only.\<close>

definition tallTable :: block where
  "tallTable = Table (replicate 20 [str ''x'', str ''y''])"

definition plainSpec :: slideSpec where
  "plainSpec = \<lparr>title = str ''T'', subtitle = None, blocks = [tallTable],
                slideNotes = None, background = None\<rparr>"

definition noOptions :: renderOptions where
  "noOptions = \<lparr>defaultBackground = None\<rparr>"

section \<open>The fragments of a paragraph\<close>

fun textOf :: "drawing \<Rightarrow> jsstring list" where
  "textOf (AddText t x y w h) = [t]"
| "textOf d = []"

fun blockText :: "block \<Rightarrow> jsstring" where
  "blockText (Paragraph t) = t"
| "blockText (Code t lang) = t"
| "blockText b = []"

text \<open>
  The texts a paragraph is cut into when it is taken from page to page: the head drawn at
  every split, then the last remainder, which is rendered whole or is left when the pages
  run out. A page that defers the paragraph draws nothing of it.
\<close>

fun paragraphFragments :: "jsstring \<Rightarrow> renderDimensions list \<Rightarrow> jsstring list" where
  "paragraphFragments t [] = [t]"
| "paragraphFragments t (d # dl) =
     (case renderParagraph t d of
        (cs, Split nc r) \<Rightarrow> concat (map textOf cs) @ paragraphFragments (blockText r) dl
      | (cs, Rendered nc) \<Rightarrow> [t]
      | (cs, Defer) \<Rightarrow> paragraphFragments t dl)"

text \<open>The lines the parser joins into a paragraph: at least one, none empty, none with a
  line feed, none starting with white space.\<close>

definition trimmedLines :: "jsstring list \<Rightarrow> bool" where
  "trimmedLines ls \<longleftrightarrow> ls \<noteq> [] \<and> (\<forall>l \<in> set ls. l \<noteq> [] \<and> 10 \<notin> set l \<and> \<not> isSpace (hd l))"

lemma joinWith_Cons: "fs \<noteq> [] \<Longrightarrow> joinWith s (x # fs) = x @ s @ joinWith s fs"
  by (cases fs) simp_all

lemma joinWith_append:
  "a \<noteq> [] \<Longrightarrow> b \<noteq> [] \<Longrightarrow> joinWith s (a @ b) = joinWith s a @ s @ joinWith s b"
  by (induction s a rule: joinWith.induct) (simp_all add: joinWith_Cons)

lemma joinWith_hd: "ls \<noteq> [] \<Longrightarrow> hd ls \<noteq> [] \<Longrightarrow> joinWith s ls \<noteq> [] \<and> hd (joinWith s ls) = hd (hd ls)"
  by (induction s ls rule: joinWith.induct) simp_all

lemma trimmedLines_trimStart:
  assumes "trimmedLines ls"
  shows "trimStart (joinWith [10] ls) = joinWith [10] ls"
proof -
  have "joinWith [10] ls \<noteq> [] \<and> hd (joinWith [10] ls) = hd (hd ls)"
    using assms by (intro joinWith_hd) (auto simp: trimmedLines_def)
  moreover have "\<not> isSpace (hd (hd ls))"
    using assms by (auto simp: trimmedLines_def)
  ultimately show ?thesis
    by (cases "joinWith [10] ls") (simp_all add: trimStart_def)
qed

lemma trimmedLines_drop: "trimmedLines ls \<Longrightarrow> m < length ls \<Longrightarrow> trimmedLines (drop m ls)"
  by (auto simp: trimmedLines_def dest: in_set_dropD)

lemma paragraphFragments_nonempty: "paragraphFragments t dl \<noteq> []"
  by (induction dl arbitrary: t) (auto split: prod.splits renderResult.splits)

lemma paragraphFragments_join:
  "trimmedLines ls \<Longrightarrow>
   joinWith [10] (paragraphFragments (joinWith [10] ls) dl) = joinWith [10] ls"
proof (induction dl arbitrary: ls)
  case Nil
  show ?case by simp
next
  case (Cons d dl)
  let ?t = "joinWith [10] ls"
  have lines: "splitOn 10 ?t = ls"
    using Cons.prems by (intro splitOn_joinWith) (auto simp: trimmedLines_def)
  obtain cs res where r: "renderParagraph ?t d = (cs, res)"
    by (cases "renderParagraph ?t d")
  show ?case
  proof (cases res)
    case (Rendered nc)
    then show ?thesis by (simp add: r)
  next
    case Defer
    then show ?thesis using Cons.IH [OF Cons.prems] by (simp add: r)
  next
    case (Split nc rem)
    then obtain m where m: "1 \<le> m" "m < length ls"
      and cs: "cs = [AddText (joinWith [10] (take m ls)) (dimX d) (dimY d) (width d)
                   (max (availableHeight d) MIN_BLOCK_HEIGHT)]"
      and rem: "rem = Paragraph (trimStart (joinWith [10] (drop m ls)))"
      using renderParagraph_split [of ?t d cs nc rem] r lines by auto
    have tl: "trimmedLines (drop m ls)"
      using Cons.prems m(2) by (rule trimmedLines_drop)
    then have rem': "blockText rem = joinWith [10] (drop m ls)"
      using rem by (simp add: trimmedLines_trimStart)
    have ih: "joinWith [10] (paragraphFragments (joinWith [10] (drop m ls)) dl) =
        joinWith [10] (drop m ls)"
      using Cons.IH [OF tl] .
    have "joinWith [10] (paragraphFragments ?t (d # dl)) =
        joinWith [10] (joinWith [10] (take m ls) #
          paragraphFragments (joinWith [10] (drop m ls)) dl)"
      by (simp add: r Split cs rem')
    also have "\<dots> = joinWith [10] (take m ls) @ [10] @ joinWith [10] (drop m ls)"
      by (simp add: joinWith_Cons paragraphFragments_nonempty ih)
    also have "\<dots> = joinWith [10] (take m ls @ drop m ls)"
      using m by (intro joinWith_append [symmetric]) auto
    finally show ?thesis by simp
  qed
qed

lemma set_trim: "set (trim l) \<subseteq> set l"
  unfolding trim_def trimStart_def trimEnd_def
  by (metis dual_order.trans set_dropWhileD set_rev subsetI)

lemma collectParagraph_buffer:
  "x \<in> set (fst (collectParagraph ls)) \<Longrightarrow> \<exists>raw \<in> set ls. x = trim raw \<and> x \<noteq> []"
proof (induction ls rule: collectParagraph.induct)
  case 1
  then show ?case by simp
next
  case (2 raw ls)
  show ?case
  proof (cases "trim raw = [] \<or> ls = [] \<or> trim (hd ls) = [] \<or> isBlockBoundary (hd ls)")
    case True
    then show ?thesis
      using "2.prems" by (auto simp add: collectParagraph_step simp del: collectParagraph.simps
          split: if_splits)
  next
    case False
    then obtain y ys where ls: "ls = y # ys"
      by (cases ls) auto
    have ih: "x \<in> set (fst (collectParagraph ls)) \<Longrightarrow> \<exists>raw \<in> set ls. x = trim raw \<and> x \<noteq> []"
      using "2.IH" [of y ys] False ls by simp
    show ?thesis
      using "2.prems" False ih
      by (auto simp add: collectParagraph_step simp del: collectParagraph.simps)
  qed
qed

lemma collectParagraph_first: "trim l \<noteq> [] \<Longrightarrow> fst (collectParagraph (l # ls)) \<noteq> []"
  by (simp add: collectParagraph_step del: collectParagraph.simps)

lemma parsed_paragraph:
  assumes "s \<in> set (parseSlides rawText)" and "Paragraph t \<in> set (blocks s)"
  shows "\<exists>ls. trimmedLines ls \<and> t = joinWith [10] ls"
proof -
  let ?L = "splitOn 10 (normalizeNewlines rawText)"
  let ?P = "\<lambda>b. \<forall>t. b = Paragraph t \<longrightarrow> (\<exists>ls. trimmedLines ls \<and> t = joinWith [10] ls)"
  have step: "?P b" if "l \<in> set ?L" "set ls' \<subseteq> set ?L" "producedBy l ls' b" for l ls' b
  proof (intro allI impI)
    fix t assume b: "b = Paragraph t"
    let ?buf = "fst (collectParagraph (l # ls'))"
    from that(3) b have t: "t = joinWith [10] ?buf" and l: "trim l \<noteq> []"
      by (auto simp: producedBy_def)
    have "x \<noteq> [] \<and> 10 \<notin> set x \<and> \<not> isSpace (hd x)" if x: "x \<in> set ?buf" for x
    proof -
      obtain raw where raw: "raw \<in> set (l # ls')" "x = trim raw" "x \<noteq> []"
        using collectParagraph_buffer [OF x] by blast
      then have "raw \<in> set ?L"
        using \<open>l \<in> set ?L\<close> \<open>set ls' \<subseteq> set ?L\<close> by auto
      then have "10 \<notin> set raw"
        by (rule splitOn_no_sep)
      then have "10 \<notin> set x"
        using raw(2) set_trim [of raw] by auto
      then show ?thesis
        using raw trim_hd [of raw] by simp
    qed
    then have "trimmedLines ?buf"
      using collectParagraph_first [OF l, of ls'] by (simp add: trimmedLines_def)
    with t show "\<exists>ls. trimmedLines ls \<and> t = joinWith [10] ls"
      by blast
  qed
  have "?P (Paragraph t)"
    by (rule parseSlides_blocks [where P = ?P, OF step _ assms]) simp_all
  then show ?thesis by simp
qed

section \<open>The second copy of the parser\<close>

text \<open>
  In \<open>part_000\<close>, \<open>parseSlides\<close> is written differently. It keeps \<open>slides\<close>,
  \<open>current\<close> and \<open>codeState\<close> in local variables that its helpers change; here they
  are the fields of the parser state, \<open>codeBlock\<close> standing for \<open>codeState\<close>.
\<close>

definition pushCurrent :: "parseState \<Rightarrow> parseState" where
  "pushCurrent st =
     (case current st of
        Some c \<Rightarrow> st\<lparr>slides := slides st @ [c]\<rparr>
      | None \<Rightarrow> st)"

definition ensureSlide000 :: "parseState \<Rightarrow> jsstring \<Rightarrow> parseState" where
  "ensureSlide000 st t =
     (let st1 = pushCurrent st
      in st1\<lparr>current := Some \<lparr>title = (if trim t \<noteq> [] then trim t
                                         else slideName (length (slides st1) + 1)),
                                subtitle = None, blocks = [], slideNotes = None,
                                background = None\<rparr>,
              codeBlock := None\<rparr>)"

text \<open>\<open>if (!current) { ensureSlide(`Slide ${slides.length + 1}`); }\<close>, which the source
  repeats before every use of the current slide and also has as the function
  \<open>needSlide\<close>.\<close>

definition needSlide :: "parseState \<Rightarrow> parseState" where
  "needSlide st =
     (if current st = None then ensureSlide000 st (slideName (length (slides st) + 1))
      else st)"

definition appendNote000 :: "parseState \<Rightarrow> jsstring \<Rightarrow> parseState" where
  "appendNote000 st line =
     (let st1 = needSlide st;
          noteText = trim (stripNote line)
      in onCurrent (\<lambda>s. s\<lparr>slideNotes := Some (case slideNotes s of
                                               Some n \<Rightarrow> if n = [] then noteText
                                                          else n @ [10] @ noteText
                                             | None \<Rightarrow> noteText)\<rparr>) st1)"

definition setBackground :: "parseState \<Rightarrow> jsstring \<Rightarrow> parseState" where
  "setBackground st line =
     (let st1 = needSlide st;
          bgPath = trim (stripBackground line)
      in if bgPath \<noteq> [] then onCurrent (\<lambda>s. s\<lparr>background := Some bgPath\<rparr>) st1 else st1)"

text \<open>
  The code block is pushed on the current slide in two places, at the closing fence and
  after the loop. When no slide is open, \<open>ensureSlide\<close> makes one and sets \<open>codeState\<close>
  to \<open>null\<close>; the lines of the code block are read from \<open>codeState\<close> after that, which
  throws a \<open>TypeError\<close>. The result is \<open>None\<close> then.
\<close>

definition pushCodeBlock :: "parseState \<Rightarrow> parseState option" where
  "pushCodeBlock st =
     (let st1 = needSlide st
      in case codeBlock st1 of
           None \<Rightarrow> None
         | Some cb \<Rightarrow>
             Some (onCurrent (\<lambda>s. s\<lparr>blocks := blocks s @ [Code (joinWith [10] (snd cb)) (fst cb)]\<rparr>)
                     st1))"

text \<open>The lines of a table after its first line, and the row of a line.\<close>

fun tableLines :: "jsstring list \<Rightarrow> jsstring list \<times> jsstring list" where
  "tableLines [] = ([], [])"
| "tableLines (l # ls) =
     (if isTableLine l then (case tableLines ls of (ts, rest) \<Rightarrow> (trimEnd l # ts, rest))
      else ([], l # ls))"

definition tableRow :: "jsstring \<Rightarrow> jsstring list" where
  "tableRow tableLine =
     (let trimmed = trim tableLine;
          inner = slice 1 (length trimmed - 1) trimmed
      in map trim (splitOn 124 inner))"

text \<open>The pattern \<open>/^(#|##|```|\s*!\[|>note:|>bg:)/\<close> that ends a paragraph.\<close>

definition paragraphStop :: "jsstring \<Rightarrow> bool" where
  "paragraphStop t \<longleftrightarrow>
     take 1 t = [35] \<or> take 2 t = [35, 35] \<or> take 3 t = [96, 96, 96] \<or>
     take 2 (dropWhile isSpace t) = [33, 91] \<or>
     take 6 t = str ''>note:'' \<or> take 4 t = str ''>bg:''"

text \<open>The lines of a paragraph after its first line.\<close>

fun paragraphLines :: "jsstring list \<Rightarrow> jsstring list \<times> jsstring list" where
  "paragraphLines [] = ([], [])"
| "paragraphLines (nextLine # ls) =
     (if trim nextLine \<noteq> [] \<and> \<not> paragraphStop (trim nextLine) then
        (if isTableLine nextLine then ([], nextLine # ls)
         else if bulletMatch nextLine \<noteq> None then ([], nextLine # ls)
         else (case paragraphLines ls of (ps, rest) \<Rightarrow> (trim nextLine # ps, rest)))
      else ([], nextLine # ls))"

text \<open>
  One turn of the loop on \<open>rawLine\<close>, with the lines after it. The loop over the bullet
  lines is that of \<open>collectBullets\<close>. A line that is none of the other kinds opens a
  slide with the line as its title when no slide is open, and starts a paragraph
  otherwise.
\<close>

definition parseLine000 ::
  "parseState \<Rightarrow> jsstring \<Rightarrow> jsstring list \<Rightarrow> (parseState \<times> jsstring list) option" where
  "parseLine000 st rawLine rest =
     (let line = trimEnd rawLine
      in case codeBlock st of
           Some cb \<Rightarrow>
             if testCodeFence line then
               (case pushCodeBlock st of
                  None \<Rightarrow> None
                | Some st1 \<Rightarrow> Some (st1\<lparr>codeBlock := None\<rparr>, rest))
             else Some (st\<lparr>codeBlock := Some (fst cb, snd cb @ [rawLine])\<rparr>, rest)
         | None \<Rightarrow>
             if testCodeFence line then
               (let lang = trim (drop 3 line) in
                Some (st\<lparr>codeBlock := Some (if lang \<noteq> [] then Some lang else None, [])\<rparr>, rest))
             else if trim line = [] then Some (st, rest)
             else if testHeading line then
               Some (ensureSlide000 st (trim (stripHeading line)), rest)
             else if testSubtitle line then
               Some (onCurrent (\<lambda>s. s\<lparr>subtitle := Some (trim (stripSubtitle line))\<rparr>)
                       (needSlide st), rest)
             else if testNote line then Some (appendNote000 st line, rest)
             else if testBackground line then Some (setBackground st line, rest)
             else (case imageMatch rawLine of
                     Some (altRaw, pathRaw) \<Rightarrow>
                       (case splitSizing pathRaw of (imgPath, sz) \<Rightarrow>
                          Some (onCurrent
                                  (\<lambda>s. s\<lparr>blocks := blocks s @
                                           [ImageBlock (trim altRaw) (trim imgPath) sz]\<rparr>)
                                  (needSlide st), rest))
                   | None \<Rightarrow>
                       if isTableLine line then
                         (case tableLines rest of (ts, rest') \<Rightarrow>
                            Some (onCurrent
                                    (\<lambda>s. s\<lparr>blocks := blocks s @
                                             [Table (map tableRow (line # ts))]\<rparr>)
                                    (needSlide st), rest'))
                       else if bulletMatch rawLine \<noteq> None then
                         (case collectBullets (rawLine # rest) of (items, rest') \<Rightarrow>
                            Some (onCurrent (\<lambda>s. s\<lparr>blocks := blocks s @ [Bullets items]\<rparr>)
                                    (needSlide st), rest'))
                       else if current st = None then Some (ensureSlide000 st line, rest)
                       else
                         (case paragraphLines rest of (ps, rest') \<Rightarrow>
                            Some (onCurrent
                                    (\<lambda>s. s\<lparr>blocks := blocks s @
                                             [Paragraph (joinWith [10] (trim rawLine # ps))]\<rparr>)
                                    (needSlide st), rest'))))"

text \<open>A line that is none of the other kinds.\<close>

definition plainLine :: "jsstring \<Rightarrow> bool" where
  "plainLine l \<longleftrightarrow>
     \<not> testCodeFence (trimEnd l) \<and> trim l \<noteq> [] \<and> \<not> testHeading (trimEnd l) \<and>
     \<not> testSubtitle (trimEnd l) \<and> \<not> testNote (trimEnd l) \<and> \<not> testBackground (trimEnd l) \<and>
     imageMatch l = None \<and> \<not> isTableLine l \<and> bulletMatch l = None"

lemma tableLines_rest:
  "length (snd (tableLines ls)) \<le> length ls" "set (snd (tableLines ls)) \<subseteq> set ls"
  by (induction ls) (auto split: prod.splits)

lemma paragraphLines_rest:
  "length (snd (paragraphLines ls)) \<le> length ls" "set (snd (paragraphLines ls)) \<subseteq> set ls"
  by (induction ls) (auto split: prod.splits)

lemma onCurrent_same: "onCurrent (\<lambda>s. s) st = st"
  by (simp add: onCurrent_def option.map_ident)

lemma parseLine000_cases:
  assumes "parseLine000 st l ls = Some (st', rest)"
  obtains
    (codeLine) cb where "codeBlock st = Some cb"
      "st' = st\<lparr>codeBlock := Some (fst cb, snd cb @ [l])\<rparr>" "rest = ls"
  | (closeFence) st1 where "pushCodeBlock st = Some st1" "st' = st1\<lparr>codeBlock := None\<rparr>"
      "rest = ls"
  | (openFence) lang where "st' = st\<lparr>codeBlock := Some (lang, [])\<rparr>" "rest = ls"
  | (blank) "st' = st" "rest = ls"
  | (heading) "codeBlock st = None" "testHeading (trimEnd l)"
      "st' = ensureSlide000 st (trim (stripHeading (trimEnd l)))" "rest = ls"
  | (onSlide) f where "\<And>s. title (f s) = title s" "st' = onCurrent f (needSlide st)"
      "length rest \<le> length ls" "set rest \<subseteq> set (l # ls)"
  | (plain) "codeBlock st = None" "current st = None" "plainLine l"
      "st' = ensureSlide000 st (trimEnd l)" "rest = ls"
proof (cases "codeBlock st")
  case (Some cb)
  have eq: "parseLine000 st l ls =
      (if testCodeFence (trimEnd l) then
         (case pushCodeBlock st of
            None \<Rightarrow> None
          | Some st1 \<Rightarrow> Some (st1\<lparr>codeBlock := None\<rparr>, ls))
       else Some (st\<lparr>codeBlock := Some (fst cb, snd cb @ [l])\<rparr>, ls))"
    unfolding parseLine000_def Let_def by (simp only: Some option.case)
  show ?thesis
  proof (cases "testCodeFence (trimEnd l)")
    case True
    then show ?thesis
      using assms closeFence by (auto simp: eq split: option.splits)
  next
    case False
    then show ?thesis
      using assms Some codeLine [of cb] by (simp add: eq)
  qed
next
  case None
  note cb = None
  show ?thesis
  proof (cases "testCodeFence (trimEnd l)")
    case True
    have "parseLine000 st l ls =
        Some (st\<lparr>codeBlock := Some (if trim (drop 3 (trimEnd l)) \<noteq> []
                    then Some (trim (drop 3 (trimEnd l))) else None, [])\<rparr>, ls)"
      unfolding parseLine000_def Let_def by (simp only: cb option.case True if_True)
    then show ?thesis
      using assms openFence by simp
  next
    case False
    note nf = False
    show ?thesis
    proof (cases "trim l = []")
      case True
      have "parseLine000 st l ls = Some (st, ls)"
        unfolding parseLine000_def Let_def
        by (simp only: cb option.case nf if_False trim_trimEnd True if_True simp_thms)
      then show ?thesis
        using assms blank by simp
    next
      case False
      note nb = False
      have eq: "parseLine000 st l ls =
         (if testHeading (trimEnd l) then
               Some (ensureSlide000 st (trim (stripHeading (trimEnd l))), ls)
             else if testSubtitle (trimEnd l) then
               Some (onCurrent (\<lambda>s. s\<lparr>subtitle := Some (trim (stripSubtitle (trimEnd l)))\<rparr>)
                       (needSlide st), ls)
             else if testNote (trimEnd l) then Some (appendNote000 st (trimEnd l), ls)
             else if testBackground (trimEnd l) then Some (setBackground st (trimEnd l), ls)
             else (case imageMatch l of
                     Some (altRaw, pathRaw) \<Rightarrow>
                       (case splitSizing pathRaw of (imgPath, sz) \<Rightarrow>
                          Some (onCurrent
                                  (\<lambda>s. s\<lparr>blocks := blocks s @
                                           [ImageBlock (trim altRaw) (trim imgPath) sz]\<rparr>)
                                  (needSlide st), ls))
                   | None \<Rightarrow>
                       if isTableLine l then
                         (case tableLines ls of (ts, rest') \<Rightarrow>
                            Some (onCurrent
                                    (\<lambda>s. s\<lparr>blocks := blocks s @
                                             [Table (map tableRow (trimEnd l # ts))]\<rparr>)
                                    (needSlide st), rest'))
                       else if bulletMatch l \<noteq> None then
                         (case collectBullets (l # ls) of (items, rest') \<Rightarrow>
                            Some (onCurrent (\<lambda>s. s\<lparr>blocks := blocks s @ [Bullets items]\<rparr>)
                                    (needSlide st), rest'))
                       else if current st = None then Some (ensureSlide000 st (trimEnd l), ls)
                       else
                         (case paragraphLines ls of (ps, rest') \<Rightarrow>
                            Some (onCurrent
                                    (\<lambda>s. s\<lparr>blocks := blocks s @
                                             [Paragraph (joinWith [10] (trim l # ps))]\<rparr>)
                                    (needSlide st), rest'))))"
        unfolding parseLine000_def Let_def
        by (simp only: cb option.case nf trim_trimEnd isTableLine_trimEnd nb if_False)
      consider (c) "testHeading (trimEnd l)"
        | (b) "\<not> testHeading (trimEnd l)" "testSubtitle (trimEnd l)"
        | (d) "\<not> testHeading (trimEnd l)" "\<not> testSubtitle (trimEnd l)" "testNote (trimEnd l)"
        | (e) "\<not> testHeading (trimEnd l)" "\<not> testSubtitle (trimEnd l)" "\<not> testNote (trimEnd l)"
            "testBackground (trimEnd l)"
        | (f) "\<not> testHeading (trimEnd l)" "\<not> testSubtitle (trimEnd l)" "\<not> testNote (trimEnd l)"
            "\<not> testBackground (trimEnd l)"
        by blast
      then show ?thesis
      proof cases
        case c
        then show ?thesis using assms cb heading by (auto simp: eq)
      next
        case b
        then have "st' = onCurrent (\<lambda>s. s\<lparr>subtitle := Some (trim (stripSubtitle (trimEnd l)))\<rparr>)
                       (needSlide st)" "rest = ls"
          using assms by (auto simp: eq)
        then show ?thesis
          by (intro onSlide [of "\<lambda>s. s\<lparr>subtitle := Some (trim (stripSubtitle (trimEnd l)))\<rparr>"]) auto
      next
        case d
        then have "st' = appendNote000 st (trimEnd l)" "rest = ls"
          using assms by (auto simp: eq)
        then show ?thesis
          unfolding appendNote000_def Let_def
          by (intro onSlide [of "\<lambda>s. s\<lparr>slideNotes := Some (case slideNotes s of
                                               Some n \<Rightarrow> if n = [] then trim (stripNote (trimEnd l))
                                                          else n @ [10] @ trim (stripNote (trimEnd l))
                                             | None \<Rightarrow> trim (stripNote (trimEnd l)))\<rparr>"]) auto
      next
        case e
        then have s: "st' = setBackground st (trimEnd l)" "rest = ls"
          using assms by (auto simp: eq)
        show ?thesis
        proof (cases "trim (stripBackground (trimEnd l)) = []")
          case True
          then have "st' = onCurrent (\<lambda>s. s) (needSlide st)"
            using s by (simp add: setBackground_def Let_def onCurrent_same)
          then show ?thesis
            using s(2) by (intro onSlide [of "\<lambda>s. s"]) auto
        next
          case False
          then have "st' = onCurrent (\<lambda>s. s\<lparr>background := Some (trim (stripBackground (trimEnd l)))\<rparr>)
              (needSlide st)"
            using s by (simp add: setBackground_def Let_def)
          then show ?thesis
            using s(2)
            by (intro onSlide [of "\<lambda>s. s\<lparr>background := Some (trim (stripBackground (trimEnd l)))\<rparr>"])
              auto
        qed
      next
        case f
        then have eq2: "parseLine000 st l ls = (case imageMatch l of
                     Some (altRaw, pathRaw) \<Rightarrow>
                       (case splitSizing pathRaw of (imgPath, sz) \<Rightarrow>
                          Some (onCurrent
                                  (\<lambda>s. s\<lparr>blocks := blocks s @
                                           [ImageBlock (trim altRaw) (trim imgPath) sz]\<rparr>)
                                  (needSlide st), ls))
                   | None \<Rightarrow>
                       if isTableLine l then
                         (case tableLines ls of (ts, rest') \<Rightarrow>
                            Some (onCurrent
                                    (\<lambda>s. s\<lparr>blocks := blocks s @
                                             [Table (map tableRow (trimEnd l # ts))]\<rparr>)
                                    (needSlide st), rest'))
                       else if bulletMatch l \<noteq> None then
                         (case collectBullets (l # ls) of (items, rest') \<Rightarrow>
                            Some (onCurrent (\<lambda>s. s\<lparr>blocks := blocks s @ [Bullets items]\<rparr>)
                                    (needSlide st), rest'))
                       else if current st = None then Some (ensureSlide000 st (trimEnd l), ls)
                       else
                         (case paragraphLines ls of (ps, rest') \<Rightarrow>
                            Some (onCurrent
                                    (\<lambda>s. s\<lparr>blocks := blocks s @
                                             [Paragraph (joinWith [10] (trim l # ps))]\<rparr>)
                                    (needSlide st), rest')))"
          by (simp only: eq if_False)
        show ?thesis
        proof (cases "imageMatch l")
          case (Some m)
          obtain a p where m: "m = (a, p)" by (cases m)
          obtain ip sz where sp: "splitSizing p = (ip, sz)" by (cases "splitSizing p")
          have "st' = onCurrent (\<lambda>s. s\<lparr>blocks := blocks s @ [ImageBlock (trim a) (trim ip) sz]\<rparr>)
                 (needSlide st)" "rest = ls"
            using assms unfolding eq2 by (simp_all add: Some m sp)
          then show ?thesis
            by (intro onSlide [of "\<lambda>s. s\<lparr>blocks := blocks s @ [ImageBlock (trim a) (trim ip) sz]\<rparr>"])
              auto
        next
          case None
          note ni = None
          show ?thesis
          proof (cases "isTableLine l")
            case True
            obtain ts r where t: "tableLines ls = (ts, r)" by (cases "tableLines ls")
            have "st' = onCurrent (\<lambda>s. s\<lparr>blocks := blocks s @ [Table (map tableRow (trimEnd l # ts))]\<rparr>)
                 (needSlide st)" "rest = r"
              using assms unfolding eq2 by (simp_all add: ni True t)
            moreover have "length r \<le> length ls" "set r \<subseteq> set (l # ls)"
              using tableLines_rest [of ls] t by auto
            ultimately show ?thesis
              by (intro onSlide [of "\<lambda>s. s\<lparr>blocks := blocks s @ [Table (map tableRow (trimEnd l # ts))]\<rparr>"])
                auto
          next
            case False
            note nt = False
            show ?thesis
            proof (cases "bulletMatch l = None")
              case False
              obtain items r where t: "collectBullets (l # ls) = (items, r)"
                by (cases "collectBullets (l # ls)")
              have "st' = onCurrent (\<lambda>s. s\<lparr>blocks := blocks s @ [Bullets items]\<rparr>) (needSlide st)"
                "rest = r"
                using assms unfolding eq2
                by (simp_all add: ni nt False t del: collectBullets.simps)
              moreover have "length r \<le> length ls" "set r \<subseteq> set (l # ls)"
                using collectBullets_consumes [OF False, of ls] collectBullets_suffix [of "l # ls"] t
                by auto
              ultimately show ?thesis
                by (intro onSlide [of "\<lambda>s. s\<lparr>blocks := blocks s @ [Bullets items]\<rparr>"]) auto
            next
              case True
              note nbl = True
              show ?thesis
              proof (cases "current st = None")
                case True
                have "st' = ensureSlide000 st (trimEnd l)" "rest = ls"
                  using assms unfolding eq2 by (simp_all add: ni nt nbl True)
                moreover have "plainLine l"
                  using nf nb f ni nt nbl by (simp add: plainLine_def)
                ultimately show ?thesis
                  using plain cb True by blast
              next
                case False
                obtain ps r where t: "paragraphLines ls = (ps, r)" by (cases "paragraphLines ls")
                have "st' = onCurrent (\<lambda>s. s\<lparr>blocks := blocks s @
                     [Paragraph (joinWith [10] (trim l # ps))]\<rparr>) (needSlide st)" "rest = r"
                  using assms unfolding eq2 by (simp_all add: ni nt nbl False t)
                moreover have "length r \<le> length ls" "set r \<subseteq> set (l # ls)"
                  using paragraphLines_rest [of ls] t by auto
                ultimately show ?thesis
                  by (intro onSlide [of "\<lambda>s. s\<lparr>blocks := blocks s @
                     [Paragraph (joinWith [10] (trim l # ps))]\<rparr>"]) auto
              qed
            qed
          qed
        qed
      qed
    qed
  qed
qed

lemma parseLine000_rest:
  assumes "parseLine000 st l ls = Some (st', rest)"
  shows "length rest \<le> length ls"
  using assms by (cases rule: parseLine000_cases) auto

text \<open>The loop over the lines.\<close>

function parseLines000 :: "parseState \<Rightarrow> jsstring list \<Rightarrow> parseState option" where
  "parseLines000 st [] = Some st"
| "parseLines000 st (rawLine # rest) =
     (case parseLine000 st rawLine rest of
        None \<Rightarrow> None
      | Some (st', rest') \<Rightarrow> parseLines000 st' rest')"
  by pat_completeness auto
termination
  apply (relation "measure (\<lambda>(st, ls). length ls)")
  subgoal by simp
  subgoal for st rawLine rest x st' rest'
    using parseLine000_rest [of st rawLine rest st' rest'] by auto
  done

text \<open>After the loop: an open code block is pushed, then the current slide.\<close>

definition finishSlides000 :: "parseState \<Rightarrow> slideSpec list option" where
  "finishSlides000 st =
     (case (if codeBlock st \<noteq> None then pushCodeBlock st else Some st) of
        None \<Rightarrow> None
      | Some st1 \<Rightarrow> Some (slides (pushCurrent st1)))"

definition parseSlides000 :: "jsstring \<Rightarrow> slideSpec list option" where
  "parseSlides000 rawText =
     (let normalized = normalizeNewlines rawText;
          lines = splitOn 10 normalized
      in case parseLines000 \<lparr>slides = [], current = None, codeBlock = None\<rparr> lines of
           None \<Rightarrow> None
         | Some st \<Rightarrow> finishSlides000 st)"

section \<open>The titles of the slides in the second copy\<close>

lemma allSlides_ensureSlide000:
  "allSlides (ensureSlide000 st t) =
     allSlides st @ [\<lparr>title = (if trim t \<noteq> [] then trim t else slideName (length (allSlides st) + 1)),
                      subtitle = None, blocks = [], slideNotes = None, background = None\<rparr>]"
  by (cases "current st") (simp_all add: ensureSlide000_def pushCurrent_def Let_def allSlides_def)

lemma current_ensureSlide000: "current (ensureSlide000 st t) \<noteq> None"
  by (simp add: ensureSlide000_def Let_def)

lemma allSlides_needSlide:
  "allSlides (needSlide st) =
     (if current st = None
      then allSlides st @ [\<lparr>title = slideName (length (allSlides st) + 1),
                      subtitle = None, blocks = [], slideNotes = None, background = None\<rparr>]
      else allSlides st)"
proof (cases "current st")
  case None
  then have "length (slides st) = length (allSlides st)"
    by (simp add: allSlides_def)
  with None show ?thesis
    by (simp add: needSlide_def allSlides_ensureSlide000 slideName_trim slideName_nonempty)
next
  case (Some c)
  then show ?thesis by (simp add: needSlide_def)
qed

lemma current_needSlide: "current (needSlide st) \<noteq> None"
  using current_ensureSlide000 [of st] by (cases "current st") (auto simp: needSlide_def)

lemma titles_onCurrent_needSlide:
  assumes "\<And>s. title (f s) = title s"
  shows "map title (allSlides (onCurrent f (needSlide st))) =
           map title (allSlides st) @
             (if current st = None then [slideName (length (allSlides st) + 1)] else [])"
proof -
  let ?e = "needSlide st"
  have "allSlides ?e \<noteq> []"
    by (rule allSlides_nonempty) (rule current_needSlide)
  then obtain xs x where e: "allSlides ?e = xs @ [x]"
    by (cases "allSlides ?e" rule: rev_cases) auto
  have "allSlides (onCurrent f ?e) = xs @ [f x]"
    by (simp add: allSlides_onCurrent current_needSlide e)
  then have "map title (allSlides (onCurrent f ?e)) = map title (allSlides ?e)"
    by (simp add: e assms)
  then show ?thesis
    by (simp add: allSlides_needSlide)
qed

lemma titles_pushCodeBlock:
  assumes "pushCodeBlock st = Some st1"
  shows "map title (allSlides st1) =
           map title (allSlides st) @
             (if current st = None then [slideName (length (allSlides st) + 1)] else [])"
proof -
  obtain cb where "st1 = onCurrent
      (\<lambda>s. s\<lparr>blocks := blocks s @ [Code (joinWith [10] (snd cb)) (fst cb)]\<rparr>) (needSlide st)"
    using assms by (auto simp: pushCodeBlock_def Let_def split: option.splits)
  then show ?thesis
    using titles_onCurrent_needSlide
      [of "\<lambda>s. s\<lparr>blocks := blocks s @ [Code (joinWith [10] (snd cb)) (fst cb)]\<rparr>" st]
    by simp
qed

text \<open>The titles already there stay; at most one title is added. It is the text of the
  heading on this line, the line itself when it is a plain line and no slide is open, or
  the name made from the slide's number.\<close>

lemma parseLine000_titles:
  assumes "parseLine000 st l ls = Some (st', rest)"
  shows "map title (allSlides st') = map title (allSlides st)
       \<or> map title (allSlides st') =
           map title (allSlides st) @ [slideName (length (allSlides st) + 1)]
       \<or> (testHeading (trimEnd l) \<and> trim (stripHeading (trimEnd l)) \<noteq> [] \<and>
          map title (allSlides st') =
            map title (allSlides st) @ [trim (stripHeading (trimEnd l))])
       \<or> (plainLine l \<and> map title (allSlides st') = map title (allSlides st) @ [trim l])"
  using assms
proof (cases rule: parseLine000_cases)
  case (codeLine cb)
  then show ?thesis by simp
next
  case (closeFence st1)
  then show ?thesis
    using titles_pushCodeBlock [of st st1] by simp
next
  case (openFence lang)
  then show ?thesis by simp
next
  case blank
  then show ?thesis by simp
next
  case heading
  then show ?thesis
    by (simp add: allSlides_ensureSlide000 trim_idem)
next
  case (onSlide f)
  then show ?thesis
    using titles_onCurrent_needSlide [of f st] by simp
next
  case plain
  then show ?thesis
    by (simp add: allSlides_ensureSlide000 trim_trimEnd plainLine_def)
qed

definition headingTitles000 :: "jsstring list \<Rightarrow> jsstring set" where
  "headingTitles000 ls =
     (\<lambda>l. trim (stripHeading (trimEnd l))) ` {l \<in> set ls. testHeading (trimEnd l)}"

definition plainTitles000 :: "jsstring list \<Rightarrow> jsstring set" where
  "plainTitles000 ls = trim ` {l \<in> set ls. plainLine l}"

lemma titles000_mono:
  "set ls \<subseteq> set ls' \<Longrightarrow>
   headingTitles000 ls \<union> plainTitles000 ls \<subseteq> headingTitles000 ls' \<union> plainTitles000 ls'"
  by (auto simp: headingTitles000_def plainTitles000_def)

lemma parseLine000_suffix:
  assumes "parseLine000 st l ls = Some (st', rest)"
  shows "set rest \<subseteq> set (l # ls)"
  using assms by (cases rule: parseLine000_cases) auto

lemma parseLine000_goodTitles:
  assumes "parseLine000 st l ls = Some (st', rest)"
  shows "\<exists>ts. map title (allSlides st') = map title (allSlides st) @ ts \<and>
           goodTitles (headingTitles000 (l # ls) \<union> plainTitles000 (l # ls))
             (length (allSlides st)) ts"
proof -
  have h: "testHeading (trimEnd l) \<Longrightarrow>
      trim (stripHeading (trimEnd l)) \<in> headingTitles000 (l # ls)"
    by (simp add: headingTitles000_def)
  have p: "plainLine l \<Longrightarrow> trim l \<in> plainTitles000 (l # ls) \<and> trim l \<noteq> []"
    by (simp add: plainTitles000_def plainLine_def)
  from parseLine000_titles [OF assms] show ?thesis
  proof (elim disjE conjE)
    assume "map title (allSlides st') = map title (allSlides st)"
    then show ?thesis by (intro exI [of _ "[]"]) simp
  next
    assume "map title (allSlides st') =
      map title (allSlides st) @ [slideName (length (allSlides st) + 1)]"
    then show ?thesis
      by (intro exI [of _ "[slideName (length (allSlides st) + 1)]"])
        (simp add: goodTitles_single slideName_nonempty)
  next
    assume "testHeading (trimEnd l)" "trim (stripHeading (trimEnd l)) \<noteq> []"
      "map title (allSlides st') = map title (allSlides st) @ [trim (stripHeading (trimEnd l))]"
    then show ?thesis
      using h by (intro exI [of _ "[trim (stripHeading (trimEnd l))]"]) (simp add: goodTitles_single)
  next
    assume "plainLine l" "map title (allSlides st') = map title (allSlides st) @ [trim l]"
    then show ?thesis
      using p by (intro exI [of _ "[trim l]"]) (simp add: goodTitles_single)
  qed
qed

lemma parseLines000_goodTitles:
  "parseLines000 st ls = Some st' \<Longrightarrow>
   \<exists>ts. map title (allSlides st') = map title (allSlides st) @ ts \<and>
        goodTitles (headingTitles000 ls \<union> plainTitles000 ls) (length (allSlides st)) ts"
proof (induction st ls rule: parseLines000.induct)
  case (1 st)
  then show ?case by simp
next
  case (2 st l ls)
  obtain st1 rest where step: "parseLine000 st l ls = Some (st1, rest)"
    using "2.prems" by (auto split: option.splits)
  then have run: "parseLines000 st1 rest = Some st'"
    using "2.prems" by simp
  let ?H = "headingTitles000 (l # ls) \<union> plainTitles000 (l # ls)"
  obtain t0 where t0: "map title (allSlides st1) = map title (allSlides st) @ t0"
    "goodTitles ?H (length (allSlides st)) t0"
    using parseLine000_goodTitles [OF step] by blast
  obtain ts where ts: "map title (allSlides st') = map title (allSlides st1) @ ts"
    "goodTitles (headingTitles000 rest \<union> plainTitles000 rest) (length (allSlides st1)) ts"
    using "2.IH" [OF step refl run] by blast
  have len: "length (allSlides st1) = length (allSlides st) + length t0"
    using arg_cong [OF t0(1), of length] by simp
  have "goodTitles ?H (length (allSlides st) + length t0) ts"
    using ts(2) titles000_mono [OF parseLine000_suffix [OF step]] goodTitles_mono
    unfolding len by blast
  with t0 have "goodTitles ?H (length (allSlides st)) (t0 @ ts)"
    by (simp add: goodTitles_append)
  moreover have "map title (allSlides st') = map title (allSlides st) @ t0 @ ts"
    using ts(1) t0(1) by simp
  ultimately show ?case by blast
qed

lemma slides_pushCurrent: "slides (pushCurrent st) = allSlides st"
  by (simp add: pushCurrent_def allSlides_def split: option.splits)

lemma finishSlides000_titles:
  assumes "finishSlides000 st = Some ss"
  shows "map title ss = map title (allSlides st) \<or>
         map title ss = map title (allSlides st) @ [slideName (length (allSlides st) + 1)]"
proof (cases "codeBlock st")
  case None
  then show ?thesis
    using assms by (auto simp: finishSlides000_def slides_pushCurrent)
next
  case (Some cb)
  then obtain st1 where p: "pushCodeBlock st = Some st1" and s: "ss = allSlides st1"
    using assms by (auto simp: finishSlides000_def slides_pushCurrent split: option.splits)
  show ?thesis
    using titles_pushCodeBlock [OF p] s by auto
qed

text \<open>The result of the second parser from any state: the titles already there stay,
  and the new ones are as described.\<close>

lemma finish000_goodTitles:
  assumes "parseLines000 st ls = Some st'" and "finishSlides000 st' = Some ss"
  shows "\<exists>ts. map title ss = map title (allSlides st) @ ts \<and>
           goodTitles (headingTitles000 ls \<union> plainTitles000 ls) (length (allSlides st)) ts"
proof -
  let ?H = "headingTitles000 ls \<union> plainTitles000 ls"
  obtain ts where ts: "map title (allSlides st') = map title (allSlides st) @ ts"
    "goodTitles ?H (length (allSlides st)) ts"
    using parseLines000_goodTitles [OF assms(1)] by blast
  have len: "length (allSlides st') = length (allSlides st) + length ts"
    using arg_cong [OF ts(1), of length] by simp
  from finishSlides000_titles [OF assms(2)] show ?thesis
  proof
    assume "map title ss = map title (allSlides st')"
    with ts show ?thesis by auto
  next
    assume a: "map title ss = map title (allSlides st') @ [slideName (length (allSlides st') + 1)]"
    have "goodTitles ?H (length (allSlides st) + length ts)
            [slideName (length (allSlides st') + 1)]"
      by (simp add: goodTitles_single slideName_nonempty len)
    with ts(2) have "goodTitles ?H (length (allSlides st))
        (ts @ [slideName (length (allSlides st') + 1)])"
      by (simp add: goodTitles_append)
    with a ts(1) show ?thesis by auto
  qed
qed

lemma parseSlides000_titles:
  assumes "parseSlides000 rawText = Some ss"
  shows "goodTitles (headingTitles000 (splitOn 10 (normalizeNewlines rawText)) \<union>
                     plainTitles000 (splitOn 10 (normalizeNewlines rawText))) 0 (map title ss)"
proof -
  let ?init = "\<lparr>slides = [], current = None, codeBlock = None\<rparr>"
  obtain st' where "parseLines000 ?init (splitOn 10 (normalizeNewlines rawText)) = Some st'"
    "finishSlides000 st' = Some ss"
    using assms by (auto simp: parseSlides000_def Let_def split: option.splits)
  from finish000_goodTitles [OF this] show ?thesis
    by (auto simp: allSlides_def)
qed

lemma plainLine_turn:
  assumes "codeBlock st = None" and "current st = None" and "plainLine l"
  shows "parseLine000 st l ls = Some (ensureSlide000 st (trimEnd l), ls)"
  using assms
  by (simp add: parseLine000_def Let_def plainLine_def trim_trimEnd isTableLine_trimEnd)


section \<open>The second copy of the renderer\<close>

text \<open>
  In \<open>part_000\<close>, \<open>renderParagraph\<close>, \<open>renderBullets\<close> and \<open>renderCode\<close> are those
  of \<open>txt2ppt.ts\<close>; \<open>renderImage\<close> and \<open>renderTable\<close> are written differently, and
  the pagination loop has no way out when the forced placement is deferred.
\<close>

definition renderImage000 ::
  "jsstring \<Rightarrow> jsstring \<Rightarrow> sizing option \<Rightarrow> renderDimensions \<Rightarrow> drawing list \<times> renderResult" where
  "renderImage000 alt path sz dims =
     (let height = min (35 / 10) (availableHeight dims)
      in if height < MIN_BLOCK_HEIGHT then ([], Defer)
         else
           (let H = max (min (35 / 10) (availableHeight dims)) MIN_BLOCK_HEIGHT;
                sizingType = (case sz of None \<Rightarrow> Contain | Some s \<Rightarrow> s)
            in ([AddImage path alt sizingType (dimX dims) (dimY dims) (width dims) H],
                Rendered (dimY dims + max height MIN_BLOCK_HEIGHT))))"

definition renderTable000 ::
  "jsstring list list \<Rightarrow> renderDimensions \<Rightarrow> drawing list \<times> renderResult" where
  "renderTable000 rows dims =
     (let rowHeight = 45 / 100;
          baseHeight = 6 / 10;
          neededHeight = max (baseHeight + of_nat (length rows) * rowHeight) MIN_BLOCK_HEIGHT
      in if neededHeight > availableHeight dims \<and> availableHeight dims < MIN_BLOCK_HEIGHT
         then ([], Defer)
         else
           (let usedHeight = min neededHeight (max (availableHeight dims) MIN_BLOCK_HEIGHT)
            in ([AddTable rows (dimX dims) (dimY dims) (width dims)],
                Rendered (dimY dims + usedHeight))))"

fun renderBlock000 :: "block \<Rightarrow> renderDimensions \<Rightarrow> drawing list \<times> renderResult" where
  "renderBlock000 (Paragraph t) dims = renderParagraph t dims"
| "renderBlock000 (Bullets items) dims = renderBullets items dims"
| "renderBlock000 (ImageBlock alt path sz) dims = renderImage000 alt path sz dims"
| "renderBlock000 (Code t language) dims = renderCode t language dims"
| "renderBlock000 (Table rows) dims = renderTable000 rows dims"

text \<open>The two copies of the renderers give the same calls and results.\<close>

lemma renderImage000_eq: "renderImage000 alt path sz dims = renderImage alt path sz dims"
proof -
  have "(case sz of None \<Rightarrow> Contain | Some s \<Rightarrow> s) = (if sz = Some Cover then Cover else Contain)"
    by (cases sz; cases "the sz") simp_all
  then show ?thesis
    by (auto simp: renderImage000_def renderImage_def Let_def MIN_BLOCK_HEIGHT_def
        MAX_IMAGE_HEIGHT_def min_def max_def)
qed

lemma used_height_eq:
  fixes n a m :: rat
  assumes "\<not> (max n m > a \<and> a < m)"
  shows "min (max n m) (max a m) = max (min (max n m) a) m"
  using assms by (auto simp: min_def max_def)

lemma renderTable000_eq: "renderTable000 rows dims = renderTable rows dims"
proof -
  let ?n = "max (6 / 10 + of_nat (length rows) * (45 / 100)) MIN_BLOCK_HEIGHT"
  show ?thesis
  proof (cases "?n > availableHeight dims \<and> availableHeight dims < MIN_BLOCK_HEIGHT")
    case True
    then show ?thesis
      by (simp add: renderTable000_def renderTable_def Let_def TABLE_BASE_HEIGHT_def
          TABLE_ROW_HEIGHT_def)
  next
    case False
    have "min ?n (max (availableHeight dims) MIN_BLOCK_HEIGHT) =
          max (min ?n (availableHeight dims)) MIN_BLOCK_HEIGHT"
      using False by (rule used_height_eq)
    with False show ?thesis
      by (simp add: renderTable000_def renderTable_def Let_def TABLE_BASE_HEIGHT_def
          TABLE_ROW_HEIGHT_def)
  qed
qed

lemma renderBlock000_eq: "renderBlock000 b dims = renderBlock b dims"
  by (cases b) (simp_all add: renderImage000_eq renderTable000_eq)

lemma split_smaller000:
  "(ds, res) = renderBlock000 b d \<Longrightarrow> res = Split nc r \<Longrightarrow> blockSize r < blockSize b"
  using split_smaller_sym [of ds res b d nc r] by (simp add: renderBlock000_eq)

function placeBlocks000 ::
  "rat \<Rightarrow> rat \<Rightarrow> block list \<Rightarrow> rat \<Rightarrow> bool \<Rightarrow> drawing list \<Rightarrow>
   block list \<times> rat \<times> bool \<times> drawing list" where
  "placeBlocks000 safeWidth sBottom [] cursor consumed cs = ([], cursor, consumed, cs)"
| "placeBlocks000 safeWidth sBottom (block # queue) cursor consumed cs =
     (case renderBlock000 block (blockDims safeWidth sBottom cursor) of
        (ds, Defer) \<Rightarrow> (block # queue, cursor, consumed, cs @ ds)
      | (ds, Rendered nextCursor) \<Rightarrow>
          if nextCursor + BLOCK_GAP \<ge> sBottom - BLOCK_GAP
          then (queue, nextCursor + BLOCK_GAP, True, cs @ ds)
          else placeBlocks000 safeWidth sBottom queue (nextCursor + BLOCK_GAP) True (cs @ ds)
      | (ds, Split nextCursor remainder) \<Rightarrow>
          if nextCursor + BLOCK_GAP \<ge> sBottom - BLOCK_GAP
          then (remainder # queue, nextCursor + BLOCK_GAP, True, cs @ ds)
          else placeBlocks000 safeWidth sBottom (remainder # queue) (nextCursor + BLOCK_GAP) True
                 (cs @ ds))"
  by pat_completeness auto
termination
  apply (relation "measure (\<lambda>(safeWidth, sBottom, q, cursor, consumed, cs). queueSize q)")
  subgoal by simp
  subgoal by (simp add: queueSize_def)
  subgoal premises p
    using p split_smaller000 by (auto simp: queueSize_def)
  done

lemma placeBlocks000_eq:
  "placeBlocks000 w sb q c consumed cs = placeBlocks w sb q c consumed cs"
  by (induction w sb q c consumed cs rule: placeBlocks.induct)
    (auto simp: renderBlock000_eq split: prod.splits renderResult.splits)

text \<open>
  The outer loop of \<open>renderSlides\<close> in \<open>part_000\<close>. After a slide on which nothing was
  placed it asks the renderer once more; when that is deferred the queue stays as it is
  and the loop goes on with the next slide. The loop may thus run for ever, and the
  result is \<open>None\<close> then.
\<close>

partial_function (option) renderPages000 ::
  "rat \<Rightarrow> rat \<Rightarrow> slideSpec \<Rightarrow> renderOptions \<Rightarrow> block list \<Rightarrow> nat \<Rightarrow> bool \<Rightarrow>
   page list option" where
  "renderPages000 safeWidth sBottom spec options blocksQueue part isFirstSlide =
     (if blocksQueue \<noteq> [] \<or> isFirstSlide then
        (case placeBlocks000 safeWidth sBottom blocksQueue BODY_TOP False
                (slideHeader safeWidth spec part) of
           (queue1, cursor, consumedInThisSlide, cs) \<Rightarrow>
             if \<not> consumedInThisSlide \<and> queue1 \<noteq> [] then
               (if cursor \<noteq> BODY_TOP then
                  Option.bind
                    (renderPages000 safeWidth sBottom spec options queue1 (part + 1) False)
                    (\<lambda>ps. Some (\<lparr>pageBackground = slideBackground spec options,
                                  calls = cs @ notesCalls spec isFirstSlide\<rparr> # ps))
                else
                  (case renderBlock000 (hd queue1) (blockDims safeWidth sBottom cursor) of
                     (ds, forcedResult) \<Rightarrow>
                       (let queue2 = (case forcedResult of
                                        Rendered nc \<Rightarrow> tl queue1
                                      | Split nc remainder \<Rightarrow> remainder # tl queue1
                                      | Defer \<Rightarrow> queue1)
                        in if queue2 = [] then
                             Some [\<lparr>pageBackground = slideBackground spec options,
                                    calls = cs @ notesCalls spec isFirstSlide @ ds\<rparr>]
                           else
                             Option.bind
                               (renderPages000 safeWidth sBottom spec options queue2 (part + 1)
                                  False)
                               (\<lambda>ps. Some (\<lparr>pageBackground = slideBackground spec options,
                                             calls = cs @ notesCalls spec isFirstSlide @ ds\<rparr>
                                           # ps)))))
             else if queue1 = [] then
               Some [\<lparr>pageBackground = slideBackground spec options,
                      calls = cs @ notesCalls spec isFirstSlide\<rparr>]
             else
               Option.bind
                 (renderPages000 safeWidth sBottom spec options queue1 (part + 1) False)
                 (\<lambda>ps. Some (\<lparr>pageBackground = slideBackground spec options,
                               calls = cs @ notesCalls spec isFirstSlide\<rparr> # ps)))
      else Some [])"

definition renderSpec000 ::
  "rat \<Rightarrow> rat \<Rightarrow> renderOptions \<Rightarrow> slideSpec \<Rightarrow> page list option" where
  "renderSpec000 safeWidth sBottom options spec =
     renderPages000 safeWidth sBottom spec options (blocks spec) 0 True"

text \<open>The slides of every specification in turn; there is a result when every loop ends.\<close>

fun renderSpecs000 ::
  "rat \<Rightarrow> rat \<Rightarrow> renderOptions \<Rightarrow> slideSpec list \<Rightarrow> page list option" where
  "renderSpecs000 safeWidth sBottom options [] = Some []"
| "renderSpecs000 safeWidth sBottom options (spec # specs) =
     Option.bind (renderSpec000 safeWidth sBottom options spec)
       (\<lambda>ps. map_option ((@) ps) (renderSpecs000 safeWidth sBottom options specs))"

definition renderSlides000 ::
  "rat \<Rightarrow> rat \<Rightarrow> slideSpec list \<Rightarrow> renderOptions \<Rightarrow> page list option" where
  "renderSlides000 presWidth presHeight specs options =
     (let presW_in = (if presWidth > 1000 then presWidth / EMU_PER_INCH else presWidth);
          presH_in = (if presHeight > 1000 then presHeight / EMU_PER_INCH else presHeight);
          safeWidth = presW_in - SAFE_MARGIN_X * 2;
          sBottom = presH_in - SAFE_MARGIN_BOTTOM
      in renderSpecs000 safeWidth sBottom options specs)"

text \<open>On a page too low for any block the second copy never ends: the block at the head
  of the queue is deferred, the forced placement is deferred too, and the next slide
  starts with the same queue.\<close>

lemma renderPages000_stuck:
  assumes nb: "\<not> splittable b" and low: "sBottom - BODY_TOP < MIN_BLOCK_HEIGHT"
  shows "renderPages000 safeWidth sBottom spec options (b # q) part isFirstSlide = None"
proof -
  have r: "renderBlock000 b (blockDims safeWidth sBottom BODY_TOP) = ([], Defer)"
    using unsplittable_deferred [OF nb low] by (simp add: renderBlock000_eq)
  have pb: "placeBlocks000 safeWidth sBottom (b # q) BODY_TOP False hdr =
      (b # q, BODY_TOP, False, hdr)" for hdr
    by (simp add: r)
  have main: "\<not> (w = safeWidth \<and> sb = sBottom \<and> qq = b # q)"
    if run: "renderPages000 w sb sp op qq p f = Some y" for w sb sp op qq p f y
    apply (rule renderPages000.raw_induct
        [where P = "\<lambda>w sb sp op qq p f y. \<not> (w = safeWidth \<and> sb = sBottom \<and> qq = b # q)",
         OF _ run])
    subgoal premises prems for rp w sb sp op qq p f y
    proof
      assume a: "w = safeWidth \<and> sb = sBottom \<and> qq = b # q"
      from prems(2) obtain ps where "rp safeWidth sBottom sp op (b # q) (p + 1) False = Some ps"
        by (auto simp: a pb r bind_eq_Some_conv)
      from prems(1) [OF this] show False
        by simp
    qed
    done
  show ?thesis
  proof (cases "renderPages000 safeWidth sBottom spec options (b # q) part isFirstSlide")
    case None
    then show ?thesis .
  next
    case (Some y)
    from main [OF this] show ?thesis
      by simp
  qed
qed

section \<open>The layouts\<close>

text \<open>
  \<open>renderSlides\<close> sets the layout of the presentation to \<open>options.layout\<close>, one of the four
  names of the type \<open>LayoutOption\<close>, and reads the size of the page back from the
  presentation library. The library is not part of the repository; the sizes it gives
  the four layouts are, in EMU, those below: 10 by 5.625, 10 by 7.5, 13.33 by 7.5 and
  10 by 6.25 inches.
\<close>

datatype layoutOption = LAYOUT_16x9 | LAYOUT_4x3 | LAYOUT_WIDE | LAYOUT_16x10

fun presLayout :: "layoutOption \<Rightarrow> rat \<times> rat" where
  "presLayout LAYOUT_16x9 = (9144000, 5143500)"
| "presLayout LAYOUT_4x3 = (9144000, 6858000)"
| "presLayout LAYOUT_WIDE = (12192000, 6858000)"
| "presLayout LAYOUT_16x10 = (9144000, 5715000)"

lemma layout_room:
  assumes "presLayout layout = (presWidth, presHeight)"
    and "computeSafeArea presWidth presHeight = (safeWidth, sBottom)"
  shows "MIN_BLOCK_HEIGHT \<le> sBottom - BODY_TOP"
  using assms
  by (cases layout)
    (auto simp: computeSafeArea_def Let_def EMU_PER_INCH_def SAFE_MARGIN_BOTTOM_def
      MIN_BLOCK_HEIGHT_def BODY_TOP_def)

lemma renderSlides000_safeArea:
  "computeSafeArea presWidth presHeight = (safeWidth, sBottom) \<Longrightarrow>
   renderSlides000 presWidth presHeight specs options =
     renderSpecs000 safeWidth sBottom options specs"
  by (auto simp: renderSlides000_def computeSafeArea_def Let_def EMU_PER_INCH_def)

text \<open>The call that draws a block that cannot be split, a table or an image, at the top
  of the body.\<close>

fun drawnWhole :: "block \<Rightarrow> rat \<Rightarrow> rat \<Rightarrow> drawing" where
  "drawnWhole (Table rows) safeWidth sBottom = AddTable rows SAFE_MARGIN_X BODY_TOP safeWidth"
| "drawnWhole (ImageBlock alt path sz) safeWidth sBottom =
     AddImage path alt (if sz = Some Cover then Cover else Contain) SAFE_MARGIN_X BODY_TOP
       safeWidth (min MAX_IMAGE_HEIGHT (sBottom - BODY_TOP))"

lemma unsplittable_rendered:
  assumes "\<not> splittable b" and "MIN_BLOCK_HEIGHT \<le> sBottom - BODY_TOP"
  shows "\<exists>nc. renderBlock b (blockDims safeWidth sBottom BODY_TOP) =
           ([drawnWhole b safeWidth sBottom], Rendered nc) \<and> nc \<le> sBottom"
  using assms
  by (cases b)
    (auto simp: renderImage_def renderTable_def blockDims_def Let_def MIN_BLOCK_HEIGHT_def
      MAX_IMAGE_HEIGHT_def min_def max_def)

lemma unsplittable_one_page:
  assumes r: "renderBlock b (blockDims safeWidth sBottom BODY_TOP) = ([d], Rendered nc)"
  shows "placeBlocks safeWidth sBottom [b] BODY_TOP False hdr =
           ([], nc + BLOCK_GAP, True, hdr @ [d])"
    and "renderPages safeWidth sBottom spec options [b] 0 True =
     [\<lparr>pageBackground = slideBackground spec options,
       calls = slideHeader safeWidth spec 0 @ [d] @ notesCalls spec True\<rparr>]"
    and "renderPages000 safeWidth sBottom spec options [b] 0 True =
     Some [\<lparr>pageBackground = slideBackground spec options,
       calls = slideHeader safeWidth spec 0 @ [d] @ notesCalls spec True\<rparr>]"
proof -
  show p: "placeBlocks safeWidth sBottom [b] BODY_TOP False hdr =
           ([], nc + BLOCK_GAP, True, hdr @ [d])" for hdr
    by (simp add: r)
  show "renderPages safeWidth sBottom spec options [b] 0 True =
     [\<lparr>pageBackground = slideBackground spec options,
       calls = slideHeader safeWidth spec 0 @ [d] @ notesCalls spec True\<rparr>]"
    by (subst renderPages.simps) (simp add: r)
  show "renderPages000 safeWidth sBottom spec options [b] 0 True =
     Some [\<lparr>pageBackground = slideBackground spec options,
       calls = slideHeader safeWidth spec 0 @ [d] @ notesCalls spec True\<rparr>]"
    by (subst renderPages000.simps) (simp add: placeBlocks000_eq r)
qed

section \<open>Running the parsers\<close>

text \<open>The definitions that the simplifier unfolds to run a parser on a given text.\<close>

lemmas parse_eval =
  parseSlides_def parseLine_def Let_def isSpace_def trim_def trimEnd_def trimStart_def
  testCodeFence_def testHeading_def testSubtitle_def stripHeading_def stripSubtitle_def
  testNote_def stripNote_def testBackground_def stripBackground_def
  imageMatch_def imagePath_def splitSizing_def isTableLine_def separatorRow_def slice_def
  bulletMatch_def bulletMarker_def bulletOf_def expandTabs_def testNumberMarker_def
  isDigit_def isLineTerminator_def lowerAscii_def MAX_INDENT_LEVEL_def
  startNewSlide_def finalizeCurrentSlide_def ensureSlide_def appendBlock_def onCurrent_def
  appendNote_def updateBackground_def appendCodeBlock_def isBlockBoundary_def
  collectParagraph.simps

lemmas parse000_eval =
  parseSlides000_def parseLine000_def finishSlides000_def pushCodeBlock_def needSlide_def
  ensureSlide000_def pushCurrent_def appendNote000_def setBackground_def tableRow_def
  paragraphStop_def plainLine_def

text \<open>A code block before any slide: the first copy makes a slide for it, the second
  throws.\<close>

lemma fence_before_slide:
  "parseSlides (str ''```\<newline>x\<newline>```'') =
     [\<lparr>title = str ''Slide 1'', subtitle = None, blocks = [Code (str ''x'') None],
        slideNotes = None, background = None\<rparr>]"
  "parseSlides000 (str ''```\<newline>x\<newline>```'') = None"
  by (simp_all add: parse000_eval parse_eval slideName_def decimal.simps)

section \<open>The claims\<close>

text \<open>
  Claim C1. For a slide whose queue holds a single block that cannot be split and needs
  more height than any page has, the pagination loop of \<open>renderSlides\<close> ends, and the
  block is placed once, by force, at the top of the body of an otherwise empty page and
  then leaves the queue, instead of the loop running for ever.

  The theorem is about both copies of the program, every layout of the options type, and
  every other page that leaves at least \<open>MIN_BLOCK_HEIGHT\<close> below the top of the body, as
  the four layouts do. The blocks that cannot be split are the images and the tables. The
  renderer does not defer such a block on such a page, whatever height it needs: the
  first attempt of the loop places it at the top of the body and takes it from the
  queue. The loop ends with exactly one slide, whose calls are the header, the one call
  that draws the block, and the notes. An image is drawn with its height cut to the page,
  a table is handed to the library whole, and the height counted for the block ends at
  the bottom of the page at most.
\<close>

theorem unsplittable_block_one_page:
  assumes "\<not> splittable b" and "blocks spec = [b]"
    and "computeSafeArea presWidth presHeight = (safeWidth, sBottom)"
    and "presLayout layout = (presWidth, presHeight) \<or> MIN_BLOCK_HEIGHT \<le> sBottom - BODY_TOP"
  shows "\<exists>nc. nc \<le> sBottom \<and>
     renderBlock b (blockDims safeWidth sBottom BODY_TOP) =
       ([drawnWhole b safeWidth sBottom], Rendered nc) \<and>
     renderBlock000 b (blockDims safeWidth sBottom BODY_TOP) =
       ([drawnWhole b safeWidth sBottom], Rendered nc) \<and>
     drawnAt (drawnWhole b safeWidth sBottom) = Some BODY_TOP \<and>
     placeBlocks safeWidth sBottom (blocks spec) BODY_TOP False (slideHeader safeWidth spec 0) =
       ([], nc + BLOCK_GAP, True, slideHeader safeWidth spec 0 @ [drawnWhole b safeWidth sBottom]) \<and>
     placeBlocks000 safeWidth sBottom (blocks spec) BODY_TOP False (slideHeader safeWidth spec 0) =
       ([], nc + BLOCK_GAP, True, slideHeader safeWidth spec 0 @ [drawnWhole b safeWidth sBottom]) \<and>
     renderSlides presWidth presHeight [spec] options =
       [\<lparr>pageBackground = slideBackground spec options,
         calls = slideHeader safeWidth spec 0 @ [drawnWhole b safeWidth sBottom] @
                 notesCalls spec True\<rparr>] \<and>
     renderSlides000 presWidth presHeight [spec] options =
       Some [\<lparr>pageBackground = slideBackground spec options,
         calls = slideHeader safeWidth spec 0 @ [drawnWhole b safeWidth sBottom] @
                 notesCalls spec True\<rparr>]"
proof -
  have room: "MIN_BLOCK_HEIGHT \<le> sBottom - BODY_TOP"
    using layout_room assms(3,4) by blast
  obtain nc where r: "renderBlock b (blockDims safeWidth sBottom BODY_TOP) =
           ([drawnWhole b safeWidth sBottom], Rendered nc)" and le: "nc \<le> sBottom"
    using unsplittable_rendered [OF assms(1) room] by blast
  have at: "drawnAt (drawnWhole b safeWidth sBottom) = Some BODY_TOP"
    using assms(1) by (cases b) simp_all
  note pg = unsplittable_one_page [OF r]
  have s: "renderSlides presWidth presHeight [spec] options =
       [\<lparr>pageBackground = slideBackground spec options,
         calls = slideHeader safeWidth spec 0 @ [drawnWhole b safeWidth sBottom] @
                 notesCalls spec True\<rparr>]"
    by (simp add: renderSlides_def assms(2,3) renderSpec_def pg(2))
  have s0: "renderSlides000 presWidth presHeight [spec] options =
       Some [\<lparr>pageBackground = slideBackground spec options,
         calls = slideHeader safeWidth spec 0 @ [drawnWhole b safeWidth sBottom] @
                 notesCalls spec True\<rparr>]"
    by (simp add: renderSlides000_safeArea [OF assms(3)] renderSpec000_def assms(2) pg(3))
  show ?thesis
    using le r at pg(1) s s0 by (auto simp: renderBlock000_eq placeBlocks000_eq assms(2))
qed

theorem unsplittable_block_one_page_witness:
  "\<not> splittable tallTable \<and> blocks plainSpec = [tallTable] \<and>
   presLayout LAYOUT_16x9 = (9144000, 5143500) \<and>
   computeSafeArea 9144000 5143500 = (88 / 10, 4925 / 1000) \<and>
   TABLE_BASE_HEIGHT + 20 * TABLE_ROW_HEIGHT > 4925 / 1000 - BODY_TOP \<and>
   renderSlides 9144000 5143500 [plainSpec] noOptions =
     [\<lparr>pageBackground = None,
       calls = [AddText (str ''T'') (6 / 10) (4 / 10) (88 / 10) (8 / 10),
                AddTable (replicate 20 [str ''x'', str ''y'']) (6 / 10) (16 / 10) (88 / 10)]\<rparr>] \<and>
   renderSlides000 9144000 5143500 [plainSpec] noOptions =
     Some [\<lparr>pageBackground = None,
       calls = [AddText (str ''T'') (6 / 10) (4 / 10) (88 / 10) (8 / 10),
                AddTable (replicate 20 [str ''x'', str ''y'']) (6 / 10) (16 / 10) (88 / 10)]\<rparr>]"
proof -
  have a: "\<not> splittable tallTable" "blocks plainSpec = [tallTable]"
    by (simp_all add: tallTable_def plainSpec_def)
  have l: "presLayout LAYOUT_16x9 = (9144000, 5143500)"
    by simp
  have c: "computeSafeArea 9144000 5143500 = (88 / 10, 4925 / 1000)"
    by (simp add: computeSafeArea_def Let_def EMU_PER_INCH_def SAFE_MARGIN_X_def
        SAFE_MARGIN_BOTTOM_def)
  have b: "TABLE_BASE_HEIGHT + 20 * TABLE_ROW_HEIGHT > 4925 / 1000 - BODY_TOP"
    by (simp add: BODY_TOP_def TABLE_BASE_HEIGHT_def TABLE_ROW_HEIGHT_def)
  have d: "drawnWhole tallTable (88 / 10) (4925 / 1000) =
      AddTable (replicate 20 [str ''x'', str ''y'']) (6 / 10) (16 / 10) (88 / 10)"
    by (simp add: tallTable_def SAFE_MARGIN_X_def BODY_TOP_def)
  have h: "slideHeader (88 / 10) plainSpec 0 = [AddText (str ''T'') (6 / 10) (4 / 10) (88 / 10) (8 / 10)]"
    "notesCalls plainSpec True = []" "slideBackground plainSpec noOptions = None"
    by (simp_all add: slideHeader_def notesCalls_def slideBackground_def plainSpec_def
        noOptions_def truthy_def SAFE_MARGIN_X_def TITLE_Y_def)
  show ?thesis
    using unsplittable_block_one_page [OF a c disjI1 [OF l], of noOptions] a l c b d h
    by auto
qed

text \<open>
  Claim C2. No table block in the output of \<open>parseSlides\<close> has a row whose source line
  was made only of pipes, colons, dashes and white space.

  The parser does not keep to this. \<open>isTableLine\<close> rejects a separator line only when
  nothing but white space, colons and dashes stands between its first and its last pipe;
  the separator row of a table with two or more columns has pipes inside, is taken for a
  table line, and becomes a row of dashes.
\<close>

theorem separator_row_kept:
  "parseSlides (str ''| A | B |\<newline>| --- | --- |\<newline>| 1 | 2 |\<newline>'') =
     [\<lparr>title = str ''Slide 1'', subtitle = None,
       blocks = [Table [[str ''A'', str ''B''], [str ''---'', str ''---''],
                        [str ''1'', str ''2'']]],
       slideNotes = None, background = None\<rparr>]"
  by (simp add: parse_eval slideName_def decimal.simps)

text \<open>
  Claim C3. A bullets block of 50 items on a page whose available height is at least 10
  and less than 11 times \<open>BULLET_LINE_HEIGHT\<close> is split, with the first 10 items on the
  page and the other 40 in the remainder, in their order.

  \<open>renderBullets\<close> keeps one line in reserve: it draws the number of bullet lines
  that fit, less one. The theorem is the claim with 9 and 41 in place of 10 and 40: the
  block is split, the first 9 items are drawn, and the remainder holds the other 41 items
  in their order.
\<close>

theorem bullets_fifty_split:
  "length items = 50 \<Longrightarrow>
   10 * BULLET_LINE_HEIGHT \<le> availableHeight dims \<Longrightarrow>
   availableHeight dims < 11 * BULLET_LINE_HEIGHT \<Longrightarrow>
   renderBullets items dims =
     ([AddBullets (take 9 items) (dimX dims) (dimY dims) (width dims) (availableHeight dims)],
      Split (dimY dims + availableHeight dims) (Bullets (drop 9 items))) \<and>
   length (take 9 items) = 9 \<and> length (drop 9 items) = 41 \<and>
   take 9 items @ drop 9 items = items"
  using renderBullets_fifty [of items dims] by simp

theorem bullets_fifty_split_witness:
  "length fiftyItems = 50 \<and>
   10 * BULLET_LINE_HEIGHT \<le> availableHeight tenLineDims \<and>
   availableHeight tenLineDims < 11 * BULLET_LINE_HEIGHT \<and>
   renderBullets fiftyItems tenLineDims =
     ([AddBullets (take 9 fiftyItems) (6 / 10) (16 / 10) (88 / 10) (38 / 10)],
      Split (54 / 10) (Bullets (drop 9 fiftyItems)))"
proof -
  have a: "length fiftyItems = 50"
    by (simp add: fiftyItems_def)
  have b: "10 * BULLET_LINE_HEIGHT \<le> availableHeight tenLineDims"
    "availableHeight tenLineDims < 11 * BULLET_LINE_HEIGHT"
    by (simp_all add: tenLineDims_def BULLET_LINE_HEIGHT_def)
  show ?thesis
    using bullets_fifty_split [OF a b] a b by (simp add: tenLineDims_def)
qed

theorem bullets_fifty_split_counterexample:
  "length fiftyItems = 50 \<and>
   10 * BULLET_LINE_HEIGHT \<le> availableHeight tenLineDims \<and>
   availableHeight tenLineDims < 11 * BULLET_LINE_HEIGHT \<and>
   fst (renderBullets fiftyItems tenLineDims) \<noteq>
     [AddBullets (take 10 fiftyItems) (6 / 10) (16 / 10) (88 / 10) (38 / 10)] \<and>
   snd (renderBullets fiftyItems tenLineDims) \<noteq>
     Split (54 / 10) (Bullets (drop 10 fiftyItems)) \<and>
   snd (renderBullets fiftyItems tenLineDims) = Split (54 / 10) (Bullets (drop 9 fiftyItems)) \<and>
   length (drop 9 fiftyItems) = 41"
proof -
  have a: "length fiftyItems = 50"
    by (simp add: fiftyItems_def)
  have b: "10 * BULLET_LINE_HEIGHT \<le> availableHeight tenLineDims"
    "availableHeight tenLineDims < 11 * BULLET_LINE_HEIGHT"
    by (simp_all add: tenLineDims_def BULLET_LINE_HEIGHT_def)
  have r: "renderBullets fiftyItems tenLineDims =
     ([AddBullets (take 9 fiftyItems) (6 / 10) (16 / 10) (88 / 10) (38 / 10)],
      Split (54 / 10) (Bullets (drop 9 fiftyItems)))"
    using renderBullets_fifty [OF a b] by (simp add: tenLineDims_def)
  have "length (take 9 fiftyItems) \<noteq> length (take 10 fiftyItems)"
    "length (drop 9 fiftyItems) \<noteq> length (drop 10 fiftyItems)"
    using a by simp_all
  then have "take 9 fiftyItems \<noteq> take 10 fiftyItems" "drop 9 fiftyItems \<noteq> drop 10 fiftyItems"
    by metis+
  then show ?thesis
    using a b r by simp
qed

text \<open>
  Claim C4. For every paragraph block that \<open>parseSlides\<close> makes, joining with line
  feeds the head drawn at every split and the last remainder, over the whole sequence of
  splits that \<open>renderParagraph\<close> makes, and trimming it, gives the text of the paragraph
  trimmed: nothing is lost and the order is kept.
\<close>

theorem paragraph_split_lossless:
  "s \<in> set (parseSlides rawText) \<Longrightarrow> Paragraph t \<in> set (blocks s) \<Longrightarrow>
   joinWith [10] (paragraphFragments t dl) = t \<and>
   trim (joinWith [10] (paragraphFragments t dl)) = trim t"
proof -
  assume "s \<in> set (parseSlides rawText)" "Paragraph t \<in> set (blocks s)"
  then obtain ls where "trimmedLines ls" "t = joinWith [10] ls"
    using parsed_paragraph by blast
  then have "joinWith [10] (paragraphFragments t dl) = t"
    using paragraphFragments_join [of ls dl] by simp
  then show ?thesis by simp
qed

theorem paragraph_split_lossless_witness:
  "parseSlides (str ''a\<newline>b\<newline>c'') =
     [\<lparr>title = str ''Slide 1'', subtitle = None, blocks = [Paragraph (str ''a\<newline>b\<newline>c'')],
       slideNotes = None, background = None\<rparr>] \<and>
   paragraphFragments (str ''a\<newline>b\<newline>c'') [shortDims, shortDims] = [str ''a'', str ''b\<newline>c''] \<and>
   joinWith [10] (paragraphFragments (str ''a\<newline>b\<newline>c'') [shortDims, shortDims]) =
     str ''a\<newline>b\<newline>c''"
proof -
  let ?s = "\<lparr>title = str ''Slide 1'', subtitle = None, blocks = [Paragraph (str ''a\<newline>b\<newline>c'')],
       slideNotes = None, background = None\<rparr>"
  have p: "parseSlides (str ''a\<newline>b\<newline>c'') = [?s]"
    by (simp add: parse_eval slideName_def decimal.simps)
  have r: "renderParagraph (str ''a\<newline>b\<newline>c'') shortDims =
     ([AddText (str ''a'') (6 / 10) (16 / 10) (88 / 10) (7 / 10)],
      Split (23 / 10) (Paragraph (str ''b\<newline>c'')))"
    by (simp add: shortDims_def renderParagraph_def Let_def LINE_HEIGHT_def
        MIN_BLOCK_HEIGHT_def trimStart_def isSpace_def)
  have r2: "renderParagraph (str ''b\<newline>c'') shortDims =
     ([AddText (str ''b\<newline>c'') (6 / 10) (16 / 10) (88 / 10) (7 / 10)], Rendered (23 / 10))"
    by (simp add: shortDims_def renderParagraph_def Let_def LINE_HEIGHT_def
        MIN_BLOCK_HEIGHT_def)
  have f: "paragraphFragments (str ''a\<newline>b\<newline>c'') [shortDims, shortDims] = [str ''a'', str ''b\<newline>c'']"
    by (simp add: r [simplified] r2 [simplified])
  have m: "?s \<in> set (parseSlides (str ''a\<newline>b\<newline>c''))" "Paragraph (str ''a\<newline>b\<newline>c'') \<in> set (blocks ?s)"
    using p by simp_all
  show ?thesis
    using paragraph_split_lossless [OF m, of "[shortDims, shortDims]"] p f by simp
qed

text \<open>
  Claim C5. Every slide in the output of \<open>parseSlides\<close> has a non-empty title, and a
  slide made without a heading line (on the first content) or from a heading whose text is
  blank is titled "Slide N", where N is the slide's place in the output, counted from 1.

  This holds in \<open>txt2ppt.ts\<close> and fails in the second copy, where a plain line met while
  no slide is open becomes the title of a new slide: the input \<open>hello\<close> gives one slide
  titled "hello", without blocks.

  The theorem has four parts for the first copy and five for the second. In the output
  every title is non-empty, and it is "Slide N" for the slide's own place N, the text of a
  heading line of the input or, in the second copy, a plain line of the input. Whenever a
  slide is made because none is open (by \<open>ensureSlide\<close>, and by \<open>needSlide\<close> in the second
  copy), and whenever the title given for a new slide is blank, the new slide is the last
  one so far and its title is "Slide N" for its place N. In the second copy a plain line
  met while no slide is open makes a slide titled with the line. And the parser never
  moves or renames a slide once it is made, so that place is its place in the output. The
  second copy throws when a code block ends before any slide is open; its parts are about
  the inputs on which it returns.
\<close>

theorem slide_titles:
  "(\<forall>i < length (parseSlides rawText).
       title (parseSlides rawText ! i) \<noteq> [] \<and>
       (title (parseSlides rawText ! i) = slideName (i + 1) \<or>
        title (parseSlides rawText ! i) \<in> headingTitles (splitOn 10 (normalizeNewlines rawText)))) \<and>
   (\<forall>st. current st = None \<longrightarrow>
       title (last (allSlides (ensureSlide st None))) =
         slideName (length (allSlides (ensureSlide st None)))) \<and>
   (\<forall>st t. trim t = [] \<longrightarrow>
       title (last (allSlides (startNewSlide st (Some t)))) =
         slideName (length (allSlides (startNewSlide st (Some t))))) \<and>
   (\<forall>st ls. take (length (allSlides st))
               (map title (slides (finalizeCurrentSlide (appendCodeBlock (parseLines st ls))))) =
             map title (allSlides st)) \<and>
   (\<forall>ss. parseSlides000 rawText = Some ss \<longrightarrow>
      (\<forall>i < length ss.
         title (ss ! i) \<noteq> [] \<and>
         (title (ss ! i) = slideName (i + 1) \<or>
          title (ss ! i) \<in> headingTitles000 (splitOn 10 (normalizeNewlines rawText)) \<or>
          title (ss ! i) \<in> plainTitles000 (splitOn 10 (normalizeNewlines rawText))))) \<and>
   (\<forall>st. current st = None \<longrightarrow>
       title (last (allSlides (needSlide st))) = slideName (length (allSlides (needSlide st)))) \<and>
   (\<forall>st t. trim t = [] \<longrightarrow>
       title (last (allSlides (ensureSlide000 st t))) =
         slideName (length (allSlides (ensureSlide000 st t)))) \<and>
   (\<forall>st l ls. codeBlock st = None \<and> current st = None \<and> plainLine l \<longrightarrow>
       parseLine000 st l ls = Some (ensureSlide000 st (trimEnd l), ls) \<and>
       title (last (allSlides (ensureSlide000 st (trimEnd l)))) = trim l) \<and>
   (\<forall>st ls st' ss. parseLines000 st ls = Some st' \<and> finishSlides000 st' = Some ss \<longrightarrow>
       take (length (allSlides st)) (map title ss) = map title (allSlides st))"
proof -
  have a: "title (parseSlides rawText ! i) \<noteq> [] \<and>
       (title (parseSlides rawText ! i) = slideName (i + 1) \<or>
        title (parseSlides rawText ! i) \<in> headingTitles (splitOn 10 (normalizeNewlines rawText)))"
    if "i < length (parseSlides rawText)" for i
    using that parseSlides_titles [of rawText, unfolded goodTitles_def, rule_format, of i] by simp
  have b: "title (last (allSlides (ensureSlide st None))) =
         slideName (length (allSlides (ensureSlide st None)))"
    if "current st = None" for st
    using that by (simp add: allSlides_ensureSlide)
  have c: "title (last (allSlides (startNewSlide st (Some t)))) =
         slideName (length (allSlides (startNewSlide st (Some t))))"
    if "trim t = []" for st t
    using that by (simp add: allSlides_startNewSlide)
  have d: "take (length (allSlides st))
               (map title (slides (finalizeCurrentSlide (appendCodeBlock (parseLines st ls))))) =
             map title (allSlides st)" for st ls
    using finish_titles [of st ls] by auto
  have a0: "title (ss ! i) \<noteq> [] \<and>
         (title (ss ! i) = slideName (i + 1) \<or>
          title (ss ! i) \<in> headingTitles000 (splitOn 10 (normalizeNewlines rawText)) \<or>
          title (ss ! i) \<in> plainTitles000 (splitOn 10 (normalizeNewlines rawText)))"
    if "parseSlides000 rawText = Some ss" "i < length ss" for ss i
    using that(2) parseSlides000_titles [OF that(1), unfolded goodTitles_def, rule_format, of i]
    by auto
  have b0: "title (last (allSlides (needSlide st))) = slideName (length (allSlides (needSlide st)))"
    if "current st = None" for st
    using that by (simp add: allSlides_needSlide)
  have c0: "title (last (allSlides (ensureSlide000 st t))) =
         slideName (length (allSlides (ensureSlide000 st t)))"
    if "trim t = []" for st t
    using that by (simp add: allSlides_ensureSlide000)
  have e0: "parseLine000 st l ls = Some (ensureSlide000 st (trimEnd l), ls) \<and>
       title (last (allSlides (ensureSlide000 st (trimEnd l)))) = trim l"
    if "codeBlock st = None \<and> current st = None \<and> plainLine l" for st l ls
    using that plainLine_turn [of st l ls]
    by (simp add: allSlides_ensureSlide000 trim_trimEnd plainLine_def)
  have d0: "take (length (allSlides st)) (map title ss) = map title (allSlides st)"
    if "parseLines000 st ls = Some st' \<and> finishSlides000 st' = Some ss" for st ls st' ss
    using that finish000_goodTitles [of st ls st' ss] by auto
  show ?thesis
    using a b c d a0 b0 c0 e0 d0 by blast
qed

theorem slide_titles_witness:
  "0 < length (parseSlides (str ''hello'')) \<and>
   title (parseSlides (str ''hello'') ! 0) = str ''Slide 1'' \<and>
   title (last (allSlides (ensureSlide \<lparr>slides = [], current = None, codeBlock = None\<rparr> None))) =
     str ''Slide 1'' \<and>
   title (last (allSlides (startNewSlide \<lparr>slides = [], current = None, codeBlock = None\<rparr> (Some [])))) =
     str ''Slide 1'' \<and>
   parseSlides000 (str ''hello'') =
     Some [\<lparr>title = str ''hello'', subtitle = None, blocks = [], slideNotes = None,
            background = None\<rparr>] \<and>
   plainLine (str ''hello'') \<and>
   parseLine000 \<lparr>slides = [], current = None, codeBlock = None\<rparr> (str ''hello'') [] =
     Some (ensureSlide000 \<lparr>slides = [], current = None, codeBlock = None\<rparr> (str ''hello''), []) \<and>
   title (last (allSlides (ensureSlide000 \<lparr>slides = [], current = None, codeBlock = None\<rparr>
     (str ''hello'')))) = str ''hello'' \<and>
   title (last (allSlides (needSlide \<lparr>slides = [], current = None, codeBlock = None\<rparr>))) =
     str ''Slide 1''"
proof -
  let ?init = "\<lparr>slides = [], current = None, codeBlock = None\<rparr>"
  have p: "parseSlides (str ''hello'') =
      [\<lparr>title = str ''Slide 1'', subtitle = None, blocks = [Paragraph (str ''hello'')],
        slideNotes = None, background = None\<rparr>]"
    by (simp add: parse_eval slideName_def decimal.simps)
  have h: "headingTitles (splitOn 10 (normalizeNewlines (str ''hello''))) = {}"
    by (simp add: headingTitles_def parse_eval)
  have n: "trim [] = []"
    by (simp add: trim_def trimStart_def)
  have l: "length (allSlides (ensureSlide ?init None)) = 1"
    "length (allSlides (startNewSlide ?init (Some []))) = 1"
    "length (allSlides (needSlide ?init)) = 1"
    by (simp_all add: allSlides_ensureSlide allSlides_startNewSlide allSlides_needSlide
        allSlides_def [of ?init])
  have s: "slideName 1 = str ''Slide 1''"
    by (simp add: slideName_def decimal.simps)
  have p0: "parseSlides000 (str ''hello'') =
     Some [\<lparr>title = str ''hello'', subtitle = None, blocks = [], slideNotes = None,
            background = None\<rparr>]"
    by (simp add: parse000_eval parse_eval)
  have q: "plainLine (str ''hello'')" "trimEnd (str ''hello'') = str ''hello''"
    "trim (str ''hello'') = str ''hello''"
    by (simp_all add: parse000_eval parse_eval)
  note t = slide_titles [of "str ''hello''"]
  have e: "parseLine000 ?init (str ''hello'') [] =
      Some (ensureSlide000 ?init (trimEnd (str ''hello'')), []) \<and>
      title (last (allSlides (ensureSlide000 ?init (trimEnd (str ''hello''))))) =
        trim (str ''hello'')"
    using t [THEN conjunct2, THEN conjunct2, THEN conjunct2, THEN conjunct2, THEN conjunct2,
        THEN conjunct2, THEN conjunct2, THEN conjunct1, rule_format,
        of ?init "str ''hello''" "[]"] q(1)
    by simp
  have f: "title (last (allSlides (needSlide ?init))) = slideName (length (allSlides (needSlide ?init)))"
    using t [THEN conjunct2, THEN conjunct2, THEN conjunct2, THEN conjunct2, THEN conjunct2,
        THEN conjunct1, rule_format, of ?init]
    by simp
  have g: "0 < length (parseSlides (str ''hello'')) \<and>
     title (parseSlides (str ''hello'') ! 0) = str ''Slide 1'' \<and>
     title (last (allSlides (ensureSlide ?init None))) = str ''Slide 1'' \<and>
     title (last (allSlides (startNewSlide ?init (Some [])))) = str ''Slide 1''"
    using t p h n l s by simp
  show ?thesis
    using g p0 q(1) e [unfolded q(2) q(3)] f [unfolded l(3) s] by simp
qed

theorem plain_line_title_counterexample:
  "parseSlides000 (str ''hello'') =
     Some [\<lparr>title = str ''hello'', subtitle = None, blocks = [], slideNotes = None,
            background = None\<rparr>] \<and>
   \<not> testHeading (trimEnd (str ''hello'')) \<and>
   str ''hello'' \<noteq> slideName 1"
  by (simp add: parse000_eval parse_eval slideName_def decimal.simps)

text \<open>
  Claim C6. For every bullet line that \<open>parseSlides\<close> reads, the item's
  \<open>indentLevel\<close> is between 0 and 3: it is the width of the indent, with a tab counted
  as two spaces, divided by two and rounded down, and at most 3. An indent of ten spaces
  gives level 3, not 5.

  Every item of every bullets block of the output is built by \<open>bulletOf\<close> from a line
  of the input that matches the bullet pattern; its level is at most 3 and is computed from
  the leading white space of that line as said.
\<close>

theorem bullet_indent_level:
  "(\<forall>s \<in> set (parseSlides rawText). \<forall>items. Bullets items \<in> set (blocks s) \<longrightarrow>
       (\<forall>it \<in> set items.
          indentLevel it \<le> 3 \<and>
          (\<exists>raw \<in> set (splitOn 10 (normalizeNewlines rawText)). \<exists>m.
             bulletMatch raw = Some m \<and> it = bulletOf m \<and>
             indentLevel it = min (indentWidth (takeWhile isSpace raw) div 2) 3))) \<and>
   parseSlides (str ''          - x'') =
     [\<lparr>title = str ''Slide 1'', subtitle = None,
       blocks = [Bullets [\<lparr>itemText = str ''x'', bulletType = BulletMark, indentLevel = 3\<rparr>]],
       slideNotes = None, background = None\<rparr>]"
proof -
  let ?L = "splitOn 10 (normalizeNewlines rawText)"
  let ?Q = "\<lambda>it. indentLevel it \<le> 3 \<and>
          (\<exists>raw \<in> set ?L. \<exists>m.
             bulletMatch raw = Some m \<and> it = bulletOf m \<and>
             indentLevel it = min (indentWidth (takeWhile isSpace raw) div 2) 3)"
  let ?P = "\<lambda>b. \<forall>items. b = Bullets items \<longrightarrow> (\<forall>it \<in> set items. ?Q it)"
  have step: "?P b" if "l \<in> set ?L" "set ls' \<subseteq> set ?L" "producedBy l ls' b" for l ls' b
  proof (intro allI impI ballI)
    fix items it assume b: "b = Bullets items" and it: "it \<in> set items"
    from that(3) b have "items = fst (collectBullets (l # ls'))"
      by (auto simp: producedBy_def)
    with it obtain raw m where raw: "raw \<in> set (l # ls')" "bulletMatch raw = Some m" "it = bulletOf m"
      using collectBullets_items [of it "l # ls'"] by blast
    have lvl: "indentLevel it = min (indentWidth (takeWhile isSpace raw) div 2) 3"
      using raw bulletOf_level by simp
    have mem: "raw \<in> set ?L"
      using raw(1) that(1,2) by auto
    have "indentLevel it \<le> 3"
      using lvl by simp
    moreover have "\<exists>raw \<in> set ?L. \<exists>m.
             bulletMatch raw = Some m \<and> it = bulletOf m \<and>
             indentLevel it = min (indentWidth (takeWhile isSpace raw) div 2) 3"
      using mem raw(2,3) lvl by blast
    ultimately show "?Q it" ..
  qed
  have "?P b" if "s \<in> set (parseSlides rawText)" "b \<in> set (blocks s)" for s b
    by (rule parseSlides_blocks [where P = ?P, OF step _ that]) simp_all
  then have a: "\<forall>s \<in> set (parseSlides rawText). \<forall>items. Bullets items \<in> set (blocks s) \<longrightarrow>
       (\<forall>it \<in> set items. ?Q it)"
    by blast
  have b: "parseSlides (str ''          - x'') =
     [\<lparr>title = str ''Slide 1'', subtitle = None,
       blocks = [Bullets [\<lparr>itemText = str ''x'', bulletType = BulletMark, indentLevel = 3\<rparr>]],
       slideNotes = None, background = None\<rparr>]"
    by (simp add: parse_eval slideName_def decimal.simps)
  from a b show ?thesis by blast
qed

theorem bullet_indent_level_witness:
  "parseSlides (9 # str ''  - a\<newline>1. b'') =
     [\<lparr>title = str ''Slide 1'', subtitle = None,
       blocks = [Bullets [\<lparr>itemText = str ''a'', bulletType = BulletMark, indentLevel = 2\<rparr>,
                          \<lparr>itemText = str ''b'', bulletType = NumberMark, indentLevel = 0\<rparr>]],
       slideNotes = None, background = None\<rparr>] \<and>
   indentLevel \<lparr>itemText = str ''a'', bulletType = BulletMark, indentLevel = 2\<rparr> \<le> 3"
proof -
  have p: "parseSlides (9 # str ''  - a\<newline>1. b'') =
     [\<lparr>title = str ''Slide 1'', subtitle = None,
       blocks = [Bullets [\<lparr>itemText = str ''a'', bulletType = BulletMark, indentLevel = 2\<rparr>,
                          \<lparr>itemText = str ''b'', bulletType = NumberMark, indentLevel = 0\<rparr>]],
       slideNotes = None, background = None\<rparr>]"
    by (simp add: parse_eval slideName_def decimal.simps)
  show ?thesis
    using bullet_indent_level [of "9 # str ''  - a\<newline>1. b''"] p by simp
qed

text \<open>
  Claim C7. For a slide specification with no blocks, \<open>renderSlides\<close> adds exactly one
  slide, with the title and, when there is one, the subtitle: never none, never more.
\<close>

theorem empty_spec_one_page:
  "blocks spec = [] \<Longrightarrow>
   renderSpec safeWidth sBottom options spec =
     [\<lparr>pageBackground = slideBackground spec options,
       calls = slideHeader safeWidth spec 0 @ notesCalls spec True\<rparr>] \<and>
   length (renderSpec safeWidth sBottom options spec) = 1 \<and>
   hd (slideHeader safeWidth spec 0) =
     AddText (title spec) SAFE_MARGIN_X TITLE_Y safeWidth (8 / 10) \<and>
   renderSlides presWidth presHeight [spec] options =
     [\<lparr>pageBackground = slideBackground spec options,
       calls = slideHeader (fst (computeSafeArea presWidth presHeight)) spec 0 @
               notesCalls spec True\<rparr>]"
  by (simp add: renderSpec_def renderSlides_def renderPages.simps [of _ _ _ _ "[]"]
      slideHeader_def case_prod_beta)

theorem empty_spec_one_page_witness:
  "blocks \<lparr>title = str ''T'', subtitle = Some (str ''S''), blocks = [], slideNotes = None,
           background = None\<rparr> = [] \<and>
   renderSpec (88 / 10) (4925 / 1000) \<lparr>defaultBackground = None\<rparr>
     \<lparr>title = str ''T'', subtitle = Some (str ''S''), blocks = [], slideNotes = None,
      background = None\<rparr> =
     [\<lparr>pageBackground = None,
       calls = [AddText (str ''T'') (6 / 10) (4 / 10) (88 / 10) (8 / 10),
                AddText (str ''S'') (6 / 10) 1 (88 / 10) (6 / 10)]\<rparr>]"
  using empty_spec_one_page [of "\<lparr>title = str ''T'', subtitle = Some (str ''S''), blocks = [],
      slideNotes = None, background = None\<rparr>" "88 / 10" "4925 / 1000"
      "\<lparr>defaultBackground = None\<rparr>" 10 "5625 / 1000"]
  by (simp add: slideBackground_def slideHeader_def notesCalls_def truthy_def
      SAFE_MARGIN_X_def TITLE_Y_def SUBTITLE_Y_def)

text \<open>
  Claim C8. \<open>parseSlides\<close> applied to
  \<open>"# Intro\n\nHello world\n\n# Two\n- a\n- b\n"\<close> returns exactly two slides: the
  first titled "Intro" with the single paragraph "Hello world", the second titled "Two"
  with a single bullets block whose items are "a" and "b", both bullets at indent level 0,
  in that order.
\<close>

theorem parseSlides_intro_two:
  "parseSlides (str ''# Intro\<newline>\<newline>Hello world\<newline>\<newline># Two\<newline>- a\<newline>- b\<newline>'') =
     [\<lparr>title = str ''Intro'', subtitle = None,
       blocks = [Paragraph (str ''Hello world'')],
       slideNotes = None, background = None\<rparr>,
      \<lparr>title = str ''Two'', subtitle = None,
       blocks = [Bullets [\<lparr>itemText = str ''a'', bulletType = BulletMark, indentLevel = 0\<rparr>,
                          \<lparr>itemText = str ''b'', bulletType = BulletMark, indentLevel = 0\<rparr>]],
       slideNotes = None, background = None\<rparr>]"
  by (simp add: parse_eval)

text \<open>
  Claim C9. Whenever \<open>renderBlock\<close> splits a paragraph, a bullets block or a code
  block, the part drawn has at least one line or item and the remainder has fewer lines or
  items than the block had; so splitting one block again and again makes it smaller each
  time and ends with a block that is rendered whole.

  A split draws the first \<open>m\<close> lines or items of the block, with \<open>m\<close> at least 1 and
  less than the size of the block, and leaves a remainder that is smaller. A block taken
  from page to page is therefore rendered at most as many times as it has lines or items,
  and on pages that have the minimum block height free the last result is \<open>Rendered\<close>.
\<close>

theorem split_makes_smaller:
  "(renderBlock b dims = (ds, Split nc r) \<longrightarrow>
      blockSize r < blockSize b \<and>
      (\<exists>m d. ds = [d] \<and> 1 \<le> m \<and> m < blockSize b \<and>
         (case b of
            Paragraph t \<Rightarrow> drawnLines d = take m (splitOn 10 t)
          | Code t lang \<Rightarrow> drawnLines d = take m (splitOn 10 t)
          | Bullets items \<Rightarrow> drawnItems d = take m items
          | _ \<Rightarrow> False))) \<and>
   length (splitChain b dl) \<le> max 1 (blockSize b) \<and>
   (max 1 (blockSize b) \<le> length dl \<and> (\<forall>d \<in> set dl. MIN_BLOCK_HEIGHT \<le> availableHeight d) \<longrightarrow>
      (\<exists>nc. last (splitChain b dl) = Rendered nc))"
  using renderBlock_split_smaller [of b dims ds nc r] renderBlock_split_head [of b dims ds nc r]
    splitChain_length [of b dl] splitChain_rendered [of b dl]
  by blast

theorem split_makes_smaller_witness:
  "renderBlock threeLines shortDims =
     ([AddText (str ''a'') (6 / 10) (16 / 10) (88 / 10) (7 / 10)],
      Split (23 / 10) (Paragraph (str ''b\<newline>c''))) \<and>
   blockSize (Paragraph (str ''b\<newline>c'')) < blockSize threeLines \<and>
   max 1 (blockSize threeLines) \<le> length [shortDims, shortDims, shortDims] \<and>
   splitChain threeLines [shortDims, shortDims, shortDims] =
     [Split (23 / 10) (Paragraph (str ''b\<newline>c'')), Rendered (23 / 10)]"
proof -
  have r: "renderBlock threeLines shortDims =
     ([AddText (str ''a'') (6 / 10) (16 / 10) (88 / 10) (7 / 10)],
      Split (23 / 10) (Paragraph (str ''b\<newline>c'')))"
    by (simp add: threeLines_def shortDims_def renderParagraph_def Let_def LINE_HEIGHT_def
        MIN_BLOCK_HEIGHT_def trimStart_def isSpace_def)
  have r2: "renderBlock (Paragraph (str ''b\<newline>c'')) shortDims =
     ([AddText (str ''b\<newline>c'') (6 / 10) (16 / 10) (88 / 10) (7 / 10)], Rendered (23 / 10))"
    by (simp add: shortDims_def renderParagraph_def Let_def LINE_HEIGHT_def
        MIN_BLOCK_HEIGHT_def)
  have c: "splitChain threeLines [shortDims, shortDims, shortDims] =
     [Split (23 / 10) (Paragraph (str ''b\<newline>c'')), Rendered (23 / 10)]"
    by (simp add: r r2 [simplified])
  have s: "blockSize threeLines = 3"
    by (simp add: threeLines_def)
  have h: "\<forall>d \<in> set [shortDims, shortDims, shortDims]. MIN_BLOCK_HEIGHT \<le> availableHeight d"
    by (simp add: shortDims_def MIN_BLOCK_HEIGHT_def)
  show ?thesis
    using split_makes_smaller [of threeLines shortDims
        "[AddText (str ''a'') (6 / 10) (16 / 10) (88 / 10) (7 / 10)]" "23 / 10"
        "Paragraph (str ''b\<newline>c'')" "[shortDims, shortDims, shortDims]"] r c s h
    by simp
qed

text \<open>
  Claim C10. \<open>parseSlides\<close> returns no slide if and only if every line of the input,
  after the line ends are normalised, is empty or white space. An input with a line that
  is not blank gives at least one slide; so does a lone code fence that is never closed.
\<close>

theorem no_slides_iff_blank:
  "(parseSlides rawText = [] \<longleftrightarrow>
      (\<forall>l \<in> set (splitOn 10 (normalizeNewlines rawText)). trim l = [])) \<and>
   parseSlides (str ''```'') =
     [\<lparr>title = str ''Slide 1'', subtitle = None, blocks = [Code [] None],
       slideNotes = None, background = None\<rparr>]"
proof -
  have "parseSlides (str ''```'') =
     [\<lparr>title = str ''Slide 1'', subtitle = None, blocks = [Code [] None],
       slideNotes = None, background = None\<rparr>]"
    by (simp add: parse_eval slideName_def decimal.simps)
  then show ?thesis
    using parseSlides_empty_iff [of rawText] by blast
qed

theorem no_slides_iff_blank_witness:
  "parseSlides (str '' \<newline>'' @ [9, 10]) = [] \<and> parseSlides (str ''\<newline>x'') \<noteq> []"
proof -
  have a: "\<forall>l \<in> set (splitOn 10 (normalizeNewlines (str '' \<newline>'' @ [9, 10]))). trim l = []"
    by (simp add: trim_def trimStart_def trimEnd_def isSpace_def)
  have b: "\<not> (\<forall>l \<in> set (splitOn 10 (normalizeNewlines (str ''\<newline>x''))). trim l = [])"
    by (simp add: trim_def trimStart_def trimEnd_def isSpace_def)
  show ?thesis
    using no_slides_iff_blank [of "str '' \<newline>'' @ [9, 10]"]
      no_slides_iff_blank [of "str ''\<newline>x''"] a b by blast
qed

end
